theory Spec2Isabelle
  imports Main
begin

section \<open>Strings as the converter uses them\<close>

text \<open>
  Python \<open>str\<close> values are modelled as \<open>string\<close>; the converter only compares,
  slices and concatenates them. \<open>endswith s suf\<close> is \<open>s.endswith(suf)\<close>,
  \<open>str_in n h\<close> is \<open>n in h\<close> (substring test), \<open>rfind s c\<close> is \<open>s.rfind(c)\<close> with
  \<open>None\<close> for Python's \<open>-1\<close>, and \<open>split_sep c s\<close> is \<open>s.split(c)\<close>.
\<close>

definition endswith :: "string \<Rightarrow> string \<Rightarrow> bool" where
  "endswith s suf = (length suf \<le> length s \<and> drop (length s - length suf) s = suf)"

fun str_in :: "string \<Rightarrow> string \<Rightarrow> bool" where
  "str_in n [] = (n = [])"
| "str_in n (c # cs) = (take (length n) (c # cs) = n \<or> str_in n cs)"

fun rfind :: "string \<Rightarrow> char \<Rightarrow> nat option" where
  "rfind [] c = None"
| "rfind (x # xs) c =
     (case rfind xs c of
        Some i \<Rightarrow> Some (Suc i)
      | None \<Rightarrow> if x = c then Some 0 else None)"

fun split_sep :: "char \<Rightarrow> string \<Rightarrow> string list" where
  "split_sep c [] = [[]]"
| "split_sep c (x # xs) =
     (if x = c then [] # split_sep c xs
      else (case split_sep c xs of
              w # ws \<Rightarrow> (x # w) # ws
            | [] \<Rightarrow> [[x]]))"

fun join_str :: "string \<Rightarrow> string list \<Rightarrow> string" where
  "join_str sep [] = []"
| "join_str sep [x] = x"
| "join_str sep (x # y # zs) = x @ sep @ join_str sep (y # zs)"

subsection \<open>Decimal formatting: the format specification \<open>:03\<close>\<close>

definition digit_char :: "nat \<Rightarrow> char" where
  "digit_char d = char_of (of_char (CHR ''0'') + d)"

fun digits :: "nat \<Rightarrow> string" where
  "digits n = (if n < 10 then [digit_char n] else digits (n div 10) @ [digit_char (n mod 10)])"

declare digits.simps [simp del]

text \<open>\<open>format_03 n\<close> is \<open>f"{n:03}"\<close>: at least three digits, padded with zeros on the left.\<close>

definition format_03 :: "nat \<Rightarrow> string" where
  "format_03 n = replicate (3 - length (digits n)) (CHR ''0'') @ digits n"

subsection \<open>The suffix-stripping substitution\<close>

text \<open>
  \<open>re.sub("(\.json(\.zip)?|\.h5|\.slp)$", "", fn)\<close>. Every match of the pattern is one of
  the four strings \<open>.json.zip\<close>, \<open>.json\<close>, \<open>.h5\<close>, \<open>.slp\<close> followed by \<open>$\<close>.
  \<open>suffix_match s\<close> is the length of the leftmost match that ends at the very end of
  \<open>s\<close>. Without the MULTILINE flag Python's \<open>$\<close> matches at the end of the string and
  also just before a line feed that is the last character, so a match may also end
  there; the two cannot both occur, since no alternative contains a line feed.
\<close>

definition suffix_match :: "string \<Rightarrow> nat option" where
  "suffix_match s =
     (if endswith s ''.json.zip'' then Some 9
      else if endswith s ''.json'' then Some 5
      else if endswith s ''.h5'' then Some 3
      else if endswith s ''.slp'' then Some 4
      else None)"

definition re_sub_suffix :: "string \<Rightarrow> string" where
  "re_sub_suffix s =
     (if s \<noteq> [] \<and> last s = CHR 0x0A then
        (case suffix_match (butlast s) of
           Some k \<Rightarrow> take (length s - 1 - k) s @ [CHR 0x0A]
         | None \<Rightarrow> s)
      else
        (case suffix_match s of
           Some k \<Rightarrow> take (length s - k) s
         | None \<Rightarrow> s))"

text \<open>The four strings the alternatives of the pattern stand for.\<close>

definition recognized_suffixes :: "string list" where
  "recognized_suffixes = [''.json'', ''.json.zip'', ''.h5'', ''.slp'']"

section \<open>Pure paths (pathlib, POSIX flavour)\<close>

text \<open>
  A \<open>PurePath\<close> is its root (\<open>''''\<close>, \<open>/\<close> or \<open>//\<close>) and its components; the drive is
  always empty on POSIX. \<open>splitroot\<close> and \<open>parse_segment\<close> follow pathlib's parsing of
  one segment: empty components and \<open>.\<close> components are dropped, exactly two leading
  slashes are kept as the root \<open>//\<close>. \<open>pure_path\<close> is the constructor
  \<open>PurePath(seg1, seg2, ...)\<close>: a segment with a root discards what precedes it.
  \<open>path_stem\<close> and \<open>path_suffix\<close> follow pathlib up to Python 3.13, where a name
  ending in a dot has no suffix.
\<close>

datatype PurePath = PurePath (root: string) (parts: "string list")

definition splitroot :: "string \<Rightarrow> string \<times> string" where
  "splitroot part =
     (if part \<noteq> [] \<and> hd part = CHR ''/'' then
        (let stripped = dropWhile (\<lambda>c. c = CHR ''/'') part
         in if length part - length stripped = 2 then (''//'', stripped)
            else (''/'', stripped))
      else ('''', part))"

definition parse_segment :: "string \<Rightarrow> PurePath" where
  "parse_segment s =
     (case splitroot s of
        (r, rel) \<Rightarrow> PurePath r (filter (\<lambda>x. x \<noteq> [] \<and> x \<noteq> ''.'') (split_sep (CHR ''/'') rel)))"

fun join_segments :: "PurePath \<Rightarrow> string list \<Rightarrow> PurePath" where
  "join_segments p [] = p"
| "join_segments p (s # ss) =
     (let q = parse_segment s
      in join_segments (if root q \<noteq> [] then q else PurePath (root p) (parts p @ parts q)) ss)"

definition pure_path :: "string list \<Rightarrow> PurePath" where
  "pure_path segs = join_segments (PurePath [] []) segs"

definition path_str :: "PurePath \<Rightarrow> string" where
  "path_str p =
     (if root p = [] \<and> parts p = [] then ''.''
      else root p @ join_str ''/'' (parts p))"

definition path_parent :: "PurePath \<Rightarrow> PurePath" where
  "path_parent p = PurePath (root p) (butlast (parts p))"

definition path_name :: "PurePath \<Rightarrow> string" where
  "path_name p = (if parts p = [] then [] else last (parts p))"

definition path_stem :: "PurePath \<Rightarrow> string" where
  "path_stem p =
     (let name = path_name p
      in case rfind name (CHR ''.'') of
           Some i \<Rightarrow> if 0 < i \<and> i < length name - 1 then take i name else name
         | None \<Rightarrow> name)"


text \<open>
  The shape of every path value pathlib builds: the root is empty, one slash or two
  slashes, and no component is empty, is a single dot or contains a slash.
\<close>

definition path_invariant :: "PurePath \<Rightarrow> bool" where
  "path_invariant p =
     (root p \<in> {[], ''/'', ''//''}
      \<and> (\<forall>x \<in> set (parts p). x \<noteq> [] \<and> x \<noteq> ''.'' \<and> CHR ''/'' \<notin> set x))"

text \<open>\<open>dirname\<close> is \<open>os.path.dirname\<close> of posixpath.\<close>

definition dirname :: "string \<Rightarrow> string" where
  "dirname p =
     (case rfind p (CHR ''/'') of
        None \<Rightarrow> []
      | Some i \<Rightarrow>
          (let head = take (Suc i) p
           in if head \<noteq> replicate (length head) (CHR ''/'')
              then rev (dropWhile (\<lambda>c. c = CHR ''/'') (rev head))
              else head))"

section \<open>Data model\<close>

text \<open>
  A \<open>Video\<close> is an opaque object; the converter reads \<open>video.backend.filename\<close> and
  compares videos when it looks one up in \<open>labels.videos\<close>. The \<open>handle\<close> stands for the
  object's identity. \<open>Labels\<close> is the loaded project; only its video sequence is
  read here. \<open>args\<close> is the namespace returned by the argument parser.
\<close>

datatype Video = Video (handle: nat) (backend_filename: string)

record Labels =
  videos :: "Video list"

record args =
  input_path :: string
  outputs :: "string list"
  format :: string
  video :: string

text \<open>Exceptions, with their \<open>args\<close> tuple.\<close>

datatype exn =
    is_TypeError: TypeError "string list"
  | is_ValueError: ValueError "string list"
  | is_IndexError: IndexError "string list"
  | is_OtherError: OtherError string "string list"

text \<open>
  What the converter does to the outside world, in order: the lines it prints and the
  calls it makes to the loaders and writers (recorded when the call is made, whatever
  its outcome).
\<close>

datatype event =
    is_Print: Print string
  | is_PrintArgs: PrintArgs args
  | is_LoadFile: LoadFile string "string list"
  | is_Read: Read string "string list" "string option"
  | is_NixWrite: NixWrite string Labels string Video
  | is_WriteAnalysis: WriteAnalysis Labels string string bool Video
  | is_SaveFile: SaveFile Labels string

text \<open>
  The external collaborators: \<open>Labels.load_file(path, video_search)\<close>,
  \<open>sleap.io.format.read(path, for_object="labels", as_format="*", video_search, video)\<close>,
  \<open>NixAdaptor.write(outname, labels, input_path, video)\<close>,
  \<open>write_tracking_h5.main(labels, output_path, labels_path, all_frames, video)\<close> and
  \<open>Labels.save_file(labels, path)\<close>. The video search callback is represented by the
  list of directories it is built from. A loader returns the project or raises; a writer
  returns \<open>None\<close> or raises \<open>Some e\<close>.
\<close>

record env =
  load_file :: "string \<Rightarrow> string list \<Rightarrow> exn + Labels"
  read :: "string \<Rightarrow> string list \<Rightarrow> string option \<Rightarrow> exn + Labels"
  nix_write :: "string \<Rightarrow> Labels \<Rightarrow> string \<Rightarrow> Video \<Rightarrow> exn option"
  write_analysis :: "Labels \<Rightarrow> string \<Rightarrow> string \<Rightarrow> bool \<Rightarrow> Video \<Rightarrow> exn option"
  save_file :: "Labels \<Rightarrow> string \<Rightarrow> exn option"

section \<open>default_analysis_filename\<close>

text \<open>\<open>index_of xs y\<close> is \<open>xs.index(y)\<close>; \<open>None\<close> where Python raises ValueError.\<close>

fun index_of :: "'a list \<Rightarrow> 'a \<Rightarrow> nat option" where
  "index_of [] y = None"
| "index_of (x # xs) y = (if x = y then Some 0 else map_option Suc (index_of xs y))"

definition default_analysis_filename ::
  "Labels \<Rightarrow> Video \<Rightarrow> string \<Rightarrow> string \<Rightarrow> string \<Rightarrow> exn + string" where
  "default_analysis_filename labels v output_path output_prefix format_suffix =
     (case index_of (videos labels) v of
        None \<Rightarrow> Inl (ValueError [''video is not in list''])
      | Some video_idx \<Rightarrow>
          (let vn = pure_path [backend_filename v]
           in Inr (path_str (pure_path
                 [output_path,
                  output_prefix @ ''.'' @ format_03 video_idx @ ''_'' @ path_stem vn
                    @ ''.analysis.'' @ format_suffix]))))"

section \<open>main\<close>

subsection \<open>Import (lines 109 to 124)\<close>

definition import_labels :: "env \<Rightarrow> args \<Rightarrow> event list \<times> (exn + Labels)" where
  "import_labels e a =
     (let video_callback = [dirname (input_path a)]
      in case load_file e (input_path a) video_callback of
           Inr labels \<Rightarrow> ([LoadFile (input_path a) video_callback], Inr labels)
         | Inl err \<Rightarrow>
             (case err of
                TypeError _ \<Rightarrow>
                  (let video_path = (if video a \<noteq> [] then Some (video a) else None)
                   in ([LoadFile (input_path a) video_callback,
                        Print ''Input file isn't SLEAP dataset so attempting other importers...'',
                        Read (input_path a) video_callback video_path],
                       read e (input_path a) video_callback video_path))
              | _ \<Rightarrow> ([LoadFile (input_path a) video_callback], Inl err)))"

subsection \<open>Video selection (lines 126 to 133)\<close>

fun first_match :: "string \<Rightarrow> Video list \<Rightarrow> Video list" where
  "first_match q [] = []"
| "first_match q (v # vs) =
     (if str_in q (backend_filename v) then [v] else first_match q vs)"

definition select_videos :: "args \<Rightarrow> Labels \<Rightarrow> Video list" where
  "select_videos a labels =
     (if length (video a) > 0 then first_match (video a) (videos labels)
      else videos labels)"

subsection \<open>Output names (lines 135 to 151)\<close>

fun append_defaults ::
  "Labels \<Rightarrow> string \<Rightarrow> string \<Rightarrow> string \<Rightarrow> Video list \<Rightarrow> string list \<Rightarrow> exn + string list" where
  "append_defaults labels dir prefix suffix [] outnames = Inr outnames"
| "append_defaults labels dir prefix suffix (v # vs) outnames =
     (case default_analysis_filename labels v dir prefix suffix of
        Inl err \<Rightarrow> Inl err
      | Inr dflt_name \<Rightarrow> append_defaults labels dir prefix suffix vs (outnames @ [dflt_name]))"

definition plan_outnames :: "args \<Rightarrow> Labels \<Rightarrow> Video list \<Rightarrow> exn + string list" where
  "plan_outnames a labels vids =
     (let outnames = outputs a
      in if length outnames < length vids then
           (let out_suffix = (if str_in ''nix'' (format a) then ''nix'' else ''h5'');
                fn = pure_path [re_sub_suffix (input_path a)]
            in append_defaults labels (path_str (path_parent fn)) (path_stem fn) out_suffix
                 (drop (length outnames) vids) outnames)
         else Inr outnames)"

text \<open>The targets are the pairs \<open>zip(vids, outnames)\<close> both writer loops run over.\<close>

definition plan_targets :: "args \<Rightarrow> Labels \<Rightarrow> exn + (Video \<times> string) list" where
  "plan_targets a labels =
     (let vids = select_videos a labels
      in case plan_outnames a labels vids of
           Inl err \<Rightarrow> Inl err
         | Inr outnames \<Rightarrow> Inr (zip vids outnames))"

subsection \<open>The writer loops (lines 153 to 171)\<close>

fun nix_loop :: "env \<Rightarrow> Labels \<Rightarrow> string \<Rightarrow> (Video \<times> string) list \<Rightarrow> event list \<times> exn option" where
  "nix_loop e labels ip [] = ([], None)"
| "nix_loop e labels ip ((v, outname) # rest) =
     (case nix_write e outname labels ip v of
        None \<Rightarrow>
          (case nix_loop e labels ip rest of
             (tr, r) \<Rightarrow> (NixWrite outname labels ip v # tr, r))
      | Some err \<Rightarrow>
          (case err of
             ValueError eargs \<Rightarrow>
               (case eargs of
                  [] \<Rightarrow> ([NixWrite outname labels ip v], Some (IndexError [''tuple index out of range'']))
                | m # _ \<Rightarrow>
                    (case nix_loop e labels ip rest of
                       (tr, r) \<Rightarrow> (NixWrite outname labels ip v # Print m # tr, r)))
           | _ \<Rightarrow> ([NixWrite outname labels ip v], Some err)))"

fun h5_loop :: "env \<Rightarrow> Labels \<Rightarrow> string \<Rightarrow> (Video \<times> string) list \<Rightarrow> event list \<times> exn option" where
  "h5_loop e labels ip [] = ([], None)"
| "h5_loop e labels ip ((v, output_path) # rest) =
     (case write_analysis e labels output_path ip True v of
        None \<Rightarrow>
          (case h5_loop e labels ip rest of
             (tr, r) \<Rightarrow> (WriteAnalysis labels output_path ip True v # tr, r))
      | Some err \<Rightarrow> ([WriteAnalysis labels output_path ip True v], Some err))"

definition export_analysis :: "env \<Rightarrow> args \<Rightarrow> Labels \<Rightarrow> event list \<times> exn option" where
  "export_analysis e a labels =
     (case plan_targets a labels of
        Inl err \<Rightarrow> ([], Some err)
      | Inr targets \<Rightarrow>
          if str_in ''nix'' (format a) then nix_loop e labels (input_path a) targets
          else h5_loop e labels (input_path a) targets)"

subsection \<open>The whole entry point\<close>

text \<open>
  \<open>main\<close> returns the events in order and the exception that leaves it, if any.
  \<open>export\<close> is everything after the project is loaded (lines 125 to 184).
\<close>

definition export :: "env \<Rightarrow> args \<Rightarrow> Labels \<Rightarrow> event list \<times> exn option" where
  "export e a labels =
     (if str_in ''analysis'' (format a) then export_analysis e a labels
      else if length (outputs a) > 0 then
        ([Print (''Output SLEAP dataset: '' @ outputs a ! 0), SaveFile labels (outputs a ! 0)],
         save_file e labels (outputs a ! 0))
      else if format a \<in> set [''slp'', ''h5'', ''json''] then
        (let output_path = input_path a @ ''.'' @ format a
         in ([Print (''Output SLEAP dataset: '' @ output_path), SaveFile labels output_path],
             save_file e labels output_path))
      else ([Print ''You didn't specify how to convert the file.'', PrintArgs a], None))"

definition main :: "env \<Rightarrow> args \<Rightarrow> event list \<times> exn option" where
  "main e a =
     (case import_labels e a of
        (tr, Inl err) \<Rightarrow> (tr, Some err)
      | (tr, Inr labels) \<Rightarrow>
          (case export e a labels of (tr', r) \<Rightarrow> (tr @ tr', r)))"


section \<open>The output-name planning with list objects made explicit\<close>

text \<open>
  Lines 135 to 151 again, now over a store of list objects, to see which object each
  \<open>append\<close> changes. A \<open>heap\<close> holds the list objects; a reference is an index into
  it. \<open>args.outputs\<close> is the object at reference \<open>outputs_ref\<close>. The comprehension
  \<open>[path for path in args.outputs]\<close> builds a new list object (\<open>heap_alloc\<close>), and
  \<open>outnames.append(dflt_name)\<close> changes the object \<open>outnames\<close> refers to
  (\<open>heap_append\<close>).
\<close>

type_synonym heap = "string list list"

definition heap_alloc :: "heap \<Rightarrow> string list \<Rightarrow> heap \<times> nat" where
  "heap_alloc h xs = (h @ [xs], length h)"

definition heap_append :: "heap \<Rightarrow> nat \<Rightarrow> string \<Rightarrow> heap" where
  "heap_append h r x = h[r := h ! r @ [x]]"

fun append_defaults_heap ::
  "Labels \<Rightarrow> string \<Rightarrow> string \<Rightarrow> string \<Rightarrow> Video list \<Rightarrow> heap \<Rightarrow> nat \<Rightarrow> exn + heap" where
  "append_defaults_heap labels dir prefix suffix [] h outnames = Inr h"
| "append_defaults_heap labels dir prefix suffix (v # vs) h outnames =
     (case default_analysis_filename labels v dir prefix suffix of
        Inl err \<Rightarrow> Inl err
      | Inr dflt_name \<Rightarrow>
          append_defaults_heap labels dir prefix suffix vs (heap_append h outnames dflt_name) outnames)"

definition plan_outnames_heap ::
  "heap \<Rightarrow> nat \<Rightarrow> string \<Rightarrow> string \<Rightarrow> Labels \<Rightarrow> Video list \<Rightarrow> exn + heap \<times> nat" where
  "plan_outnames_heap h outputs_ref inp fmt labels vids =
     (case heap_alloc h (h ! outputs_ref) of
        (h1, outnames) \<Rightarrow>
          if length (h1 ! outnames) < length vids then
            (let out_suffix = (if str_in ''nix'' fmt then ''nix'' else ''h5'');
                 fn = pure_path [re_sub_suffix inp]
             in case append_defaults_heap labels (path_str (path_parent fn)) (path_stem fn)
                       out_suffix (drop (length (h1 ! outnames)) vids) h1 outnames of
                  Inl err \<Rightarrow> Inl err
                | Inr h2 \<Rightarrow> Inr (h2, outnames))
          else Inr (h1, outnames))"

section \<open>Concrete projects and collaborators\<close>

definition camA :: Video where
  "camA = Video 0 ''camA.mp4''"

definition camB :: Video where
  "camB = Video 1 ''camB.mp4''"

definition proj2 :: Labels where
  "proj2 = \<lparr>videos = [camA, camB]\<rparr>"

text \<open>Every call succeeds; the native loader returns the two-video project.\<close>

definition env_ok :: env where
  "env_ok =
     \<lparr>load_file = (\<lambda>p d. Inr proj2),
      read = (\<lambda>p d v. Inr proj2),
      nix_write = (\<lambda>out l ip v. None),
      write_analysis = (\<lambda>l out ip af v. None),
      save_file = (\<lambda>l p. None)\<rparr>"

text \<open>The NIX writer rejects the first video with a value error that carries a message.\<close>

definition env_nix_rejects_camA :: env where
  "env_nix_rejects_camA =
     env_ok\<lparr>nix_write := (\<lambda>out l ip v. if v = camA then Some (ValueError [''unsupported codec'']) else None)\<rparr>"

text \<open>The NIX writer fails on the first video with an error that is not a value error.\<close>

definition env_nix_breaks_camA :: env where
  "env_nix_breaks_camA =
     env_ok\<lparr>nix_write := (\<lambda>out l ip v. if v = camA then Some (OtherError ''OSError'' [''disk full'']) else None)\<rparr>"

text \<open>The NIX writer fails on the first video with a value error raised without arguments.\<close>

definition env_nix_bare_value_error :: env where
  "env_nix_bare_value_error =
     env_ok\<lparr>nix_write := (\<lambda>out l ip v. if v = camA then Some (ValueError []) else None)\<rparr>"

text \<open>The HDF5 analysis writer fails on the first video.\<close>

definition env_h5_fails_camA :: env where
  "env_h5_fails_camA =
     env_ok\<lparr>write_analysis := (\<lambda>l out ip af v. if v = camA then Some (OtherError ''OSError'' [''disk full'']) else None)\<rparr>"

text \<open>The input is not a native project: the native loader signals a format mismatch.\<close>

definition env_legacy :: env where
  "env_legacy = env_ok\<lparr>load_file := (\<lambda>p d. Inl (TypeError [''not a SLEAP dataset'']))\<rparr>"

text \<open>The input file is missing.\<close>

definition env_missing :: env where
  "env_missing = env_ok\<lparr>load_file := (\<lambda>p d. Inl (OtherError ''FileNotFoundError'' [''proj.slp'']))\<rparr>"

definition args_of :: "string \<Rightarrow> string list \<Rightarrow> string \<Rightarrow> string \<Rightarrow> args" where
  "args_of inp outs fmt vid = \<lparr>input_path = inp, outputs = outs, format = fmt, video = vid\<rparr>"

definition line_feed :: char where
  "line_feed = CHR 0x0A"


section \<open>Import: native loader first, generic reader on a format mismatch\<close>

text \<open>
  Claim C5. The importer first calls the native project loader. Exactly when that call
  raises \<open>TypeError\<close> (the format-mismatch signal) it prints the notice and calls the
  generic reader with the same path and video search, and with the \<open>--video\<close> string as
  the video hint (\<open>None\<close> when the string is empty); the reader's outcome is then the
  importer's outcome. Any other exception of the native loader leaves \<open>main\<close> unchanged,
  with nothing printed and no further call.
\<close>

theorem import_native_then_fallback:
  assumes "cb = [dirname (input_path a)]"
    and "native = load_file e (input_path a) cb"
    and "hint = (if video a = [] then None else Some (video a))"
    and "notice = Print ''Input file isn't SLEAP dataset so attempting other importers...''"
  shows "(\<exists>tr. fst (import_labels e a) = LoadFile (input_path a) cb # tr)
       \<and> ((\<exists>x. native = Inl (TypeError x)) \<longleftrightarrow> (\<exists>ev \<in> set (fst (import_labels e a)). is_Read ev))
       \<and> ((\<exists>x. native = Inl (TypeError x)) \<longleftrightarrow> (\<exists>ev \<in> set (fst (import_labels e a)). is_Print ev))
       \<and> ((\<exists>x. native = Inl (TypeError x)) \<longrightarrow>
            import_labels e a =
              ([LoadFile (input_path a) cb, notice, Read (input_path a) cb hint],
               read e (input_path a) cb hint))
       \<and> (\<forall>err. native = Inl err \<and> \<not> is_TypeError err \<longrightarrow>
            import_labels e a = ([LoadFile (input_path a) cb], Inl err)
            \<and> main e a = ([LoadFile (input_path a) cb], Some err))
       \<and> (\<forall>labels. native = Inr labels \<longrightarrow>
            import_labels e a = ([LoadFile (input_path a) cb], Inr labels))"
  using assms
  by (auto simp: import_labels_def main_def Let_def split: sum.splits exn.splits)

text \<open>
  A legacy file with a video hint goes through the generic reader; a missing file makes
  \<open>main\<close> end with the loader's own exception.
\<close>

theorem import_native_then_fallback_witness:
  "import_labels env_legacy (args_of ''proj.mat'' [] ''slp'' ''clip.mp4'') =
     ([LoadFile ''proj.mat'' [[]],
       Print ''Input file isn't SLEAP dataset so attempting other importers...'',
       Read ''proj.mat'' [[]] (Some ''clip.mp4'')],
      Inr proj2)
   \<and> main env_missing (args_of ''proj.slp'' [] ''slp'' []) =
     ([LoadFile ''proj.slp'' [[]]], Some (OtherError ''FileNotFoundError'' [''proj.slp'']))"
  using import_native_then_fallback [of "[[]]" "args_of ''proj.mat'' [] ''slp'' ''clip.mp4''"
      "Inl (TypeError [''not a SLEAP dataset''])" env_legacy "Some ''clip.mp4''"
      "Print ''Input file isn't SLEAP dataset so attempting other importers...''"]
    import_native_then_fallback [of "[[]]" "args_of ''proj.slp'' [] ''slp'' []"
      "Inl (OtherError ''FileNotFoundError'' [''proj.slp''])" env_missing None
      "Print ''Input file isn't SLEAP dataset so attempting other importers...''"]
  by (simp add: env_legacy_def env_missing_def env_ok_def args_of_def dirname_def)

section \<open>A video filter that matches nothing\<close>

lemma first_match_none:
  "\<forall>v \<in> set vs. \<not> str_in q (backend_filename v) \<Longrightarrow> first_match q vs = []"
  by (induction vs) auto

text \<open>
  Claim C9. In an analysis export whose \<open>--video\<close> string is not empty and occurs in no
  video's backing filename, no video is selected, no target is planned, and \<open>main\<close> ends
  without an exception having made no call beyond the import.
\<close>

theorem unmatched_filter_selects_nothing:
  assumes "import_labels e a = (tr, Inr labels)"
    and "str_in ''analysis'' (format a)"
    and "video a \<noteq> []"
    and "\<forall>v \<in> set (videos labels). \<not> str_in (video a) (backend_filename v)"
  shows "select_videos a labels = []
       \<and> plan_targets a labels = Inr []
       \<and> export e a labels = ([], None)
       \<and> main e a = (tr, None)"
proof -
  have sel: "select_videos a labels = []"
    using assms(3,4) by (simp add: select_videos_def first_match_none)
  have plan: "plan_targets a labels = Inr []"
    by (simp add: plan_targets_def sel plan_outnames_def)
  have ex: "export e a labels = ([], None)"
    using assms(2) by (simp add: export_def export_analysis_def plan)
  show ?thesis
    using sel plan ex assms(1) by (simp add: main_def)
qed

theorem unmatched_filter_selects_nothing_witness:
  "main env_ok (args_of ''proj.slp'' [''out.h5''] ''analysis'' ''camC'') =
     ([LoadFile ''proj.slp'' [[]]], None)"
  using unmatched_filter_selects_nothing [of env_ok
      "args_of ''proj.slp'' [''out.h5''] ''analysis'' ''camC''"
      "[LoadFile ''proj.slp'' [[]]]" proj2]
  by (simp add: import_labels_def env_ok_def args_of_def dirname_def proj2_def camA_def camB_def)

section \<open>Saving in the native format\<close>

lemma import_trace_no_save:
  "import_labels e a = (tr, r) \<Longrightarrow>
     filter is_SaveFile tr = [] \<and> filter is_NixWrite tr = [] \<and> filter is_WriteAnalysis tr = []"
  by (auto simp: import_labels_def Let_def split: sum.splits exn.splits)

lemma native_formats_are_not_analysis:
  "fmt \<in> {''slp'', ''h5'', ''json''} \<Longrightarrow> \<not> str_in ''analysis'' fmt"
  by auto

text \<open>
  Claim C6. In every invocation whose format is a non-analysis kind (\<open>slp\<close>, \<open>h5\<close> or
  \<open>json\<close>) and whose project loads, exactly one output is written and no analysis
  writer is called: the project is saved to the first explicit output path when at
  least one was supplied, and to the input path followed by a dot and the format
  otherwise.
\<close>

theorem native_save_single_output:
  assumes "import_labels e a = (tr, Inr labels)"
    and "format a \<in> {''slp'', ''h5'', ''json''}"
    and "target = (if outputs a \<noteq> [] then hd (outputs a) else input_path a @ ''.'' @ format a)"
  shows "main e a = (tr @ [Print (''Output SLEAP dataset: '' @ target), SaveFile labels target],
                     save_file e labels target)
       \<and> filter is_SaveFile (fst (main e a)) = [SaveFile labels target]
       \<and> filter is_NixWrite (fst (main e a)) = []
       \<and> filter is_WriteAnalysis (fst (main e a)) = []"
proof -
  have na: "\<not> str_in ''analysis'' (format a)"
    using assms(2) by (rule native_formats_are_not_analysis)
  have m: "main e a = (tr @ [Print (''Output SLEAP dataset: '' @ target), SaveFile labels target],
                       save_file e labels target)"
    using assms na by (auto simp: main_def export_def Let_def hd_conv_nth)
  show ?thesis
    using import_trace_no_save [OF assms(1)] by (simp add: m)
qed

text \<open>
  The project \<open>proj.slp\<close> saved with format \<open>slp\<close> and no output goes to
  \<open>proj.slp.slp\<close>; with format \<open>json\<close> and the explicit output \<open>out.json\<close> it goes
  there.
\<close>

theorem native_save_single_output_witness:
  "main env_ok (args_of ''proj.slp'' [] ''slp'' []) =
     ([LoadFile ''proj.slp'' [[]], Print ''Output SLEAP dataset: proj.slp.slp'',
       SaveFile proj2 ''proj.slp.slp''], None)
   \<and> filter is_SaveFile (fst (main env_ok (args_of ''proj.slp'' [''out.json'', ''more.json''] ''json'' [])))
       = [SaveFile proj2 ''out.json'']"
  using native_save_single_output [of env_ok "args_of ''proj.slp'' [] ''slp'' []"
      "[LoadFile ''proj.slp'' [[]]]" proj2 "''proj.slp.slp''"]
    native_save_single_output [of env_ok "args_of ''proj.slp'' [''out.json'', ''more.json''] ''json'' []"
      "[LoadFile ''proj.slp'' [[]]]" proj2 "''out.json''"]
  by (simp add: import_labels_def env_ok_def args_of_def dirname_def)


section \<open>The writer loops\<close>

text \<open>
  The import makes no writer call. A prefix of targets on which the NIX writer either
  succeeds or raises a value error with a message does not end the NIX loop; the HDF5
  loop ends at the first failing write.
\<close>

lemma import_trace_no_writer:
  "import_labels e a = (tr, r) \<Longrightarrow> filter is_NixWrite tr = [] \<and> filter is_WriteAnalysis tr = []"
  by (auto simp: import_labels_def Let_def split: sum.splits exn.splits)

lemma nix_loop_append:
  assumes "\<forall>(v, out) \<in> set pre. nix_write e out labels ip v = None
             \<or> (\<exists>m ms. nix_write e out labels ip v = Some (ValueError (m # ms)))"
  shows "nix_loop e labels ip (pre @ post) =
           (fst (nix_loop e labels ip pre) @ fst (nix_loop e labels ip post),
            snd (nix_loop e labels ip post))"
  using assms
proof (induction pre)
  case Nil
  then show ?case by simp
next
  case (Cons t pre)
  obtain v out where t: "t = (v, out)" by (cases t)
  from Cons.prems have rest: "\<forall>(v, out) \<in> set pre. nix_write e out labels ip v = None
             \<or> (\<exists>m ms. nix_write e out labels ip v = Some (ValueError (m # ms)))"
    by simp
  from Cons.prems t have hd: "nix_write e out labels ip v = None
             \<or> (\<exists>m ms. nix_write e out labels ip v = Some (ValueError (m # ms)))"
    by simp
  show ?case
    using hd Cons.IH [OF rest] by (auto simp: t split: prod.splits)
qed

lemma nix_loop_all_attempted:
  assumes "\<forall>(v, out) \<in> set ts. nix_write e out labels ip v = None
             \<or> (\<exists>m ms. nix_write e out labels ip v = Some (ValueError (m # ms)))"
  shows "filter is_NixWrite (fst (nix_loop e labels ip ts)) = map (\<lambda>(v, out). NixWrite out labels ip v) ts
       \<and> snd (nix_loop e labels ip ts) = None"
  using assms
proof (induction ts)
  case Nil
  then show ?case by simp
next
  case (Cons t ts)
  obtain v out where t: "t = (v, out)" by (cases t)
  from Cons.prems have rest: "\<forall>(v, out) \<in> set ts. nix_write e out labels ip v = None
             \<or> (\<exists>m ms. nix_write e out labels ip v = Some (ValueError (m # ms)))"
    by simp
  from Cons.prems t have hd: "nix_write e out labels ip v = None
             \<or> (\<exists>m ms. nix_write e out labels ip v = Some (ValueError (m # ms)))"
    by simp
  show ?case
    using hd Cons.IH [OF rest] by (auto simp: t split: prod.splits)
qed

lemma nix_loop_first_attempt:
  "\<exists>tr. fst (nix_loop e labels ip ((v, out) # rest)) = NixWrite out labels ip v # tr"
  by (auto split: option.splits exn.splits list.splits prod.splits)

lemma h5_loop_stops:
  assumes "\<forall>(v, out) \<in> set pre. write_analysis e labels out ip True v = None"
    and "write_analysis e labels out ip True v = Some err"
  shows "h5_loop e labels ip (pre @ (v, out) # post) =
           (map (\<lambda>(v, out). WriteAnalysis labels out ip True v) (pre @ [(v, out)]), Some err)"
  using assms
  by (induction pre) (auto split: prod.splits)

lemma h5_loop_all:
  assumes "\<forall>(v, out) \<in> set ts. write_analysis e labels out ip True v = None"
  shows "h5_loop e labels ip ts = (map (\<lambda>(v, out). WriteAnalysis labels out ip True v) ts, None)"
  using assms
  by (induction ts) (auto split: prod.splits)

lemma main_analysis:
  assumes "import_labels e a = (tr0, Inr labels)"
    and "str_in ''analysis'' (format a)"
    and "plan_targets a labels = Inr ts"
  shows "main e a =
           (if str_in ''nix'' (format a)
            then (tr0 @ fst (nix_loop e labels (input_path a) ts), snd (nix_loop e labels (input_path a) ts))
            else (tr0 @ fst (h5_loop e labels (input_path a) ts), snd (h5_loop e labels (input_path a) ts)))"
  using assms by (simp add: main_def export_def export_analysis_def split: prod.splits)

text \<open>
  What the handler of the NIX loop does when it works: the targets before some target
  having each been written or rejected with a value error that carries a message, a
  value error with message \<open>m\<close> on that target is caught, \<open>m\<close> is printed right after
  the call and the loop goes on with the following targets as if it had started there;
  any other exception on that target ends \<open>main\<close> right after the call.
\<close>

lemma nix_value_error_with_message_continues:
  assumes "import_labels e a = (tr0, Inr labels)"
    and "str_in ''analysis'' (format a)"
    and "str_in ''nix'' (format a)"
    and "plan_targets a labels = Inr (pre @ (v, out) # post)"
    and "\<forall>(v', out') \<in> set pre. nix_write e out' labels (input_path a) v' = None
           \<or> (\<exists>m ms. nix_write e out' labels (input_path a) v' = Some (ValueError (m # ms)))"
  shows "(\<forall>m ms. nix_write e out labels (input_path a) v = Some (ValueError (m # ms)) \<longrightarrow>
            main e a =
              (tr0 @ fst (nix_loop e labels (input_path a) pre)
                   @ NixWrite out labels (input_path a) v # Print m
                   # fst (nix_loop e labels (input_path a) post),
               snd (nix_loop e labels (input_path a) post))
            \<and> (\<forall>v' out' rest. post = (v', out') # rest \<longrightarrow>
                 (\<exists>tr. fst (nix_loop e labels (input_path a) post)
                        = NixWrite out' labels (input_path a) v' # tr)))
       \<and> (\<forall>err. nix_write e out labels (input_path a) v = Some err \<and> \<not> is_ValueError err \<longrightarrow>
            main e a =
              (tr0 @ fst (nix_loop e labels (input_path a) pre) @ [NixWrite out labels (input_path a) v],
               Some err))"
proof -
  have m: "main e a = (tr0 @ fst (nix_loop e labels (input_path a) (pre @ (v, out) # post)),
                       snd (nix_loop e labels (input_path a) (pre @ (v, out) # post)))"
    using main_analysis [OF assms(1,2,4)] assms(3) by simp
  have ap: "nix_loop e labels (input_path a) (pre @ (v, out) # post) =
           (fst (nix_loop e labels (input_path a) pre) @ fst (nix_loop e labels (input_path a) ((v, out) # post)),
            snd (nix_loop e labels (input_path a) ((v, out) # post)))"
    by (rule nix_loop_append [OF assms(5)])
  show ?thesis
    unfolding m ap
    using nix_loop_first_attempt [of e labels "input_path a"]
    by (auto split: prod.splits exn.splits)
qed

text \<open>
  Claim C4: in a NIX analysis export a value error raised by the writer on one video
  is caught and its message reported, and the following videos are still attempted.
  The code breaks this for a value error raised without arguments: the handler prints
  \<open>e.args[0]\<close>, which then raises \<open>IndexError\<close> inside the handler. With two videos and
  such an error on the first, nothing is printed, the second video is never attempted
  and \<open>main\<close> ends with the \<open>IndexError\<close>.
\<close>

theorem nix_bare_value_error_ends_export:
  "plan_targets (args_of ''proj.slp'' [] ''analysis.nix'' []) proj2 =
     Inr [(camA, ''proj.000_camA.analysis.nix''), (camB, ''proj.001_camB.analysis.nix'')]
   \<and> nix_write env_nix_bare_value_error ''proj.000_camA.analysis.nix'' proj2 ''proj.slp'' camA
       = Some (ValueError [])
   \<and> main env_nix_bare_value_error (args_of ''proj.slp'' [] ''analysis.nix'' []) =
     ([LoadFile ''proj.slp'' [[]],
       NixWrite ''proj.000_camA.analysis.nix'' proj2 ''proj.slp'' camA],
      Some (IndexError [''tuple index out of range'']))"
  by code_simp

text \<open>
  Claim C3 as stated fails: the HDF5 loop has no handler, so a failure on the first of
  two targets ends \<open>main\<close> and the second target is never attempted.
\<close>

theorem h5_failure_stops_export_counterexample:
  "plan_targets (args_of ''proj.slp'' [] ''analysis'' []) proj2 =
     Inr [(camA, ''proj.000_camA.analysis.h5''), (camB, ''proj.001_camB.analysis.h5'')]
   \<and> main env_h5_fails_camA (args_of ''proj.slp'' [] ''analysis'' []) =
     ([LoadFile ''proj.slp'' [[]],
       WriteAnalysis proj2 ''proj.000_camA.analysis.h5'' ''proj.slp'' True camA],
      Some (OtherError ''OSError'' [''disk full'']))"
  by code_simp

text \<open>
  Claim C3, amended. In a NIX analysis export in which every failure of the writer is a
  value error carrying a message, every target is attempted, in order, and \<open>main\<close> ends
  without an exception. In a NIX analysis export in which the writer raises an
  exception of another kind on some target, the targets before it having each been
  written or rejected with a value error carrying a message, \<open>main\<close> ends with that
  exception right after that call and the targets after it are not attempted. In an
  HDF5 analysis export the first failing write ends \<open>main\<close> with its exception and the
  targets after it are not attempted; when no write fails, every target is written in
  order.
\<close>

theorem analysis_failure_isolation:
  assumes "import_labels e a = (tr0, Inr labels)"
    and "str_in ''analysis'' (format a)"
    and "plan_targets a labels = Inr ts"
  shows "(str_in ''nix'' (format a)
          \<and> (\<forall>(v, out) \<in> set ts. nix_write e out labels (input_path a) v = None
                \<or> (\<exists>m ms. nix_write e out labels (input_path a) v = Some (ValueError (m # ms)))) \<longrightarrow>
            filter is_NixWrite (fst (main e a)) = map (\<lambda>(v, out). NixWrite out labels (input_path a) v) ts
            \<and> snd (main e a) = None)
       \<and> (str_in ''nix'' (format a) \<longrightarrow>
            (\<forall>pre v out post err.
               ts = pre @ (v, out) # post
               \<and> (\<forall>(v', out') \<in> set pre. nix_write e out' labels (input_path a) v' = None
                     \<or> (\<exists>m ms. nix_write e out' labels (input_path a) v' = Some (ValueError (m # ms))))
               \<and> nix_write e out labels (input_path a) v = Some err
               \<and> \<not> is_ValueError err \<longrightarrow>
               main e a =
                 (tr0 @ fst (nix_loop e labels (input_path a) pre) @ [NixWrite out labels (input_path a) v],
                  Some err)
               \<and> filter is_NixWrite (fst (main e a))
                   = map (\<lambda>(v, out). NixWrite out labels (input_path a) v) (pre @ [(v, out)])))
       \<and> (\<not> str_in ''nix'' (format a) \<longrightarrow>
            (\<forall>pre v out post err.
               ts = pre @ (v, out) # post
               \<and> (\<forall>(v', out') \<in> set pre. write_analysis e labels out' (input_path a) True v' = None)
               \<and> write_analysis e labels out (input_path a) True v = Some err \<longrightarrow>
               main e a =
                 (tr0 @ map (\<lambda>(v, out). WriteAnalysis labels out (input_path a) True v) (pre @ [(v, out)]),
                  Some err)))
       \<and> (\<not> str_in ''nix'' (format a)
          \<and> (\<forall>(v, out) \<in> set ts. write_analysis e labels out (input_path a) True v = None) \<longrightarrow>
            main e a = (tr0 @ map (\<lambda>(v, out). WriteAnalysis labels out (input_path a) True v) ts, None))"
proof -
  let ?ip = "input_path a"
  have imp: "filter is_NixWrite tr0 = []"
    using import_trace_no_writer [OF assms(1)] by simp
  have c1: "str_in ''nix'' (format a)
          \<and> (\<forall>(v, out) \<in> set ts. nix_write e out labels ?ip v = None
                \<or> (\<exists>m ms. nix_write e out labels ?ip v = Some (ValueError (m # ms)))) \<longrightarrow>
            filter is_NixWrite (fst (main e a)) = map (\<lambda>(v, out). NixWrite out labels ?ip v) ts
            \<and> snd (main e a) = None"
  proof
    assume h: "str_in ''nix'' (format a)
          \<and> (\<forall>(v, out) \<in> set ts. nix_write e out labels ?ip v = None
                \<or> (\<exists>m ms. nix_write e out labels ?ip v = Some (ValueError (m # ms))))"
    have m: "main e a = (tr0 @ fst (nix_loop e labels ?ip ts), snd (nix_loop e labels ?ip ts))"
      using main_analysis [OF assms] h by simp
    have all: "filter is_NixWrite (fst (nix_loop e labels ?ip ts))
                 = map (\<lambda>(v, out). NixWrite out labels ?ip v) ts
               \<and> snd (nix_loop e labels ?ip ts) = None"
      using nix_loop_all_attempted [of ts e labels ?ip] h by blast
    show "filter is_NixWrite (fst (main e a)) = map (\<lambda>(v, out). NixWrite out labels ?ip v) ts
            \<and> snd (main e a) = None"
      by (simp add: m all imp)
  qed
  have c2: "str_in ''nix'' (format a) \<longrightarrow>
            (\<forall>pre v out post err.
               ts = pre @ (v, out) # post
               \<and> (\<forall>(v', out') \<in> set pre. nix_write e out' labels ?ip v' = None
                     \<or> (\<exists>m ms. nix_write e out' labels ?ip v' = Some (ValueError (m # ms))))
               \<and> nix_write e out labels ?ip v = Some err
               \<and> \<not> is_ValueError err \<longrightarrow>
               main e a =
                 (tr0 @ fst (nix_loop e labels ?ip pre) @ [NixWrite out labels ?ip v], Some err)
               \<and> filter is_NixWrite (fst (main e a))
                   = map (\<lambda>(v, out). NixWrite out labels ?ip v) (pre @ [(v, out)]))"
  proof (intro impI allI)
    fix pre v out post err
    assume n: "str_in ''nix'' (format a)"
      and h: "ts = pre @ (v, out) # post
               \<and> (\<forall>(v', out') \<in> set pre. nix_write e out' labels ?ip v' = None
                     \<or> (\<exists>m ms. nix_write e out' labels ?ip v' = Some (ValueError (m # ms))))
               \<and> nix_write e out labels ?ip v = Some err
               \<and> \<not> is_ValueError err"
    from h have pre: "\<forall>(v', out') \<in> set pre. nix_write e out' labels ?ip v' = None
                     \<or> (\<exists>m ms. nix_write e out' labels ?ip v' = Some (ValueError (m # ms)))"
      by blast
    have m: "main e a = (tr0 @ fst (nix_loop e labels ?ip ts), snd (nix_loop e labels ?ip ts))"
      using main_analysis [OF assms] n by simp
    have stop: "nix_loop e labels ?ip ((v, out) # post) = ([NixWrite out labels ?ip v], Some err)"
      using h by (cases err) simp_all
    have "nix_loop e labels ?ip (pre @ (v, out) # post) =
            (fst (nix_loop e labels ?ip pre) @ [NixWrite out labels ?ip v], Some err)"
      unfolding nix_loop_append [OF pre] stop by simp
    moreover have "ts = pre @ (v, out) # post"
      using h by blast
    ultimately have lp: "nix_loop e labels ?ip ts =
            (fst (nix_loop e labels ?ip pre) @ [NixWrite out labels ?ip v], Some err)"
      by (simp only:)
    have fp: "filter is_NixWrite (fst (nix_loop e labels ?ip pre))
                = map (\<lambda>(v, out). NixWrite out labels ?ip v) pre"
      using nix_loop_all_attempted [OF pre] by blast
    show "main e a =
                 (tr0 @ fst (nix_loop e labels ?ip pre) @ [NixWrite out labels ?ip v], Some err)
               \<and> filter is_NixWrite (fst (main e a))
                   = map (\<lambda>(v, out). NixWrite out labels ?ip v) (pre @ [(v, out)])"
      by (simp add: m lp imp fp)
  qed
  have c3: "\<not> str_in ''nix'' (format a) \<longrightarrow>
            (\<forall>pre v out post err.
               ts = pre @ (v, out) # post
               \<and> (\<forall>(v', out') \<in> set pre. write_analysis e labels out' ?ip True v' = None)
               \<and> write_analysis e labels out ?ip True v = Some err \<longrightarrow>
               main e a =
                 (tr0 @ map (\<lambda>(v, out). WriteAnalysis labels out ?ip True v) (pre @ [(v, out)]),
                  Some err))"
  proof (intro impI allI)
    fix pre v out post err
    assume n: "\<not> str_in ''nix'' (format a)"
      and h: "ts = pre @ (v, out) # post
               \<and> (\<forall>(v', out') \<in> set pre. write_analysis e labels out' ?ip True v' = None)
               \<and> write_analysis e labels out ?ip True v = Some err"
    have m: "main e a = (tr0 @ fst (h5_loop e labels ?ip ts), snd (h5_loop e labels ?ip ts))"
      using main_analysis [OF assms] n by simp
    have "h5_loop e labels ?ip (pre @ (v, out) # post) =
             (map (\<lambda>(v, out). WriteAnalysis labels out ?ip True v) (pre @ [(v, out)]), Some err)"
      using h5_loop_stops [of pre e labels ?ip out v err post] h by blast
    then show "main e a =
                 (tr0 @ map (\<lambda>(v, out). WriteAnalysis labels out ?ip True v) (pre @ [(v, out)]),
                  Some err)"
      using m h by simp
  qed
  have c4: "\<not> str_in ''nix'' (format a)
          \<and> (\<forall>(v, out) \<in> set ts. write_analysis e labels out ?ip True v = None) \<longrightarrow>
            main e a = (tr0 @ map (\<lambda>(v, out). WriteAnalysis labels out ?ip True v) ts, None)"
  proof
    assume n: "\<not> str_in ''nix'' (format a)
          \<and> (\<forall>(v, out) \<in> set ts. write_analysis e labels out ?ip True v = None)"
    have m: "main e a = (tr0 @ fst (h5_loop e labels ?ip ts), snd (h5_loop e labels ?ip ts))"
      using main_analysis [OF assms] n by simp
    show "main e a = (tr0 @ map (\<lambda>(v, out). WriteAnalysis labels out ?ip True v) ts, None)"
      using m h5_loop_all [of ts e labels ?ip] n by simp
  qed
  from c1 c2 c3 c4 show ?thesis by (intro conjI)
qed

text \<open>
  Two videos, no explicit output. When the NIX writer rejects the first with a value
  error carrying a message, both targets are attempted; when it fails on the first with
  an error of another kind, only the first is attempted and \<open>main\<close> ends with the error.
\<close>

theorem analysis_failure_isolation_witness:
  "filter is_NixWrite (fst (main env_nix_rejects_camA (args_of ''proj.slp'' [] ''analysis.nix'' []))) =
     [NixWrite ''proj.000_camA.analysis.nix'' proj2 ''proj.slp'' camA,
      NixWrite ''proj.001_camB.analysis.nix'' proj2 ''proj.slp'' camB]
   \<and> snd (main env_nix_rejects_camA (args_of ''proj.slp'' [] ''analysis.nix'' [])) = None
   \<and> main env_nix_breaks_camA (args_of ''proj.slp'' [] ''analysis.nix'' []) =
     ([LoadFile ''proj.slp'' [[]],
       NixWrite ''proj.000_camA.analysis.nix'' proj2 ''proj.slp'' camA],
      Some (OtherError ''OSError'' [''disk full'']))"
proof -
  let ?a = "args_of ''proj.slp'' [] ''analysis.nix'' []"
  have f: "str_in ''analysis'' (format ?a)"
    by (simp add: args_of_def)
  have n: "str_in ''nix'' (format ?a)"
    by (simp add: args_of_def)
  have ip: "input_path ?a = ''proj.slp''" by (simp add: args_of_def)
  have i1: "import_labels env_nix_rejects_camA ?a = ([LoadFile ''proj.slp'' [[]]], Inr proj2)"
    by (simp add: import_labels_def env_nix_rejects_camA_def env_ok_def args_of_def dirname_def)
  have i2: "import_labels env_nix_breaks_camA ?a = ([LoadFile ''proj.slp'' [[]]], Inr proj2)"
    by (simp add: import_labels_def env_nix_breaks_camA_def env_ok_def args_of_def dirname_def)
  have pl: "plan_targets ?a proj2 =
      Inr [(camA, ''proj.000_camA.analysis.nix''), (camB, ''proj.001_camB.analysis.nix'')]"
    by code_simp
  have w1: "nix_write env_nix_rejects_camA ''proj.000_camA.analysis.nix'' proj2 ''proj.slp'' camA
              = Some (ValueError [''unsupported codec''])"
    by (simp add: env_nix_rejects_camA_def env_ok_def)
  have w1b: "nix_write env_nix_rejects_camA ''proj.001_camB.analysis.nix'' proj2 ''proj.slp'' camB = None"
    by (simp add: env_nix_rejects_camA_def env_ok_def camA_def camB_def)
  have w2: "nix_write env_nix_breaks_camA ''proj.000_camA.analysis.nix'' proj2 ''proj.slp'' camA
              = Some (OtherError ''OSError'' [''disk full''])"
    by (simp add: env_nix_breaks_camA_def env_ok_def)
  have a1: "filter is_NixWrite (fst (main env_nix_rejects_camA ?a)) =
     [NixWrite ''proj.000_camA.analysis.nix'' proj2 ''proj.slp'' camA,
      NixWrite ''proj.001_camB.analysis.nix'' proj2 ''proj.slp'' camB]
   \<and> snd (main env_nix_rejects_camA ?a) = None"
    using analysis_failure_isolation [OF i1 f pl]
    by (simp add: ip n w1 w1b)
  have "main env_nix_breaks_camA ?a =
     ([LoadFile ''proj.slp'' [[]]] @ fst (nix_loop env_nix_breaks_camA proj2 (input_path ?a) [])
        @ [NixWrite ''proj.000_camA.analysis.nix'' proj2 (input_path ?a) camA],
      Some (OtherError ''OSError'' [''disk full'']))"
    using analysis_failure_isolation [OF i2 f pl, THEN conjunct2, THEN conjunct1, rule_format,
        where pre = "[]" and v = camA and out = "''proj.000_camA.analysis.nix''"
          and post = "[(camB, ''proj.001_camB.analysis.nix'')]"
          and err = "OtherError ''OSError'' [''disk full'']"]
    by (simp add: n ip w2)
  then have a2: "main env_nix_breaks_camA ?a =
     ([LoadFile ''proj.slp'' [[]],
       NixWrite ''proj.000_camA.analysis.nix'' proj2 ''proj.slp'' camA],
      Some (OtherError ''OSError'' [''disk full'']))"
    by (simp add: ip)
  show ?thesis
    using a1 a2 by simp
qed

section \<open>Suffix stripping\<close>

lemma endswith_iff: "endswith s t \<longleftrightarrow> (\<exists>q. s = q @ t)"
proof
  assume "endswith s t"
  then have "s = take (length s - length t) s @ t"
    by (metis append_take_drop_id endswith_def)
  then show "\<exists>q. s = q @ t" ..
next
  assume "\<exists>q. s = q @ t"
  then show "endswith s t" by (auto simp: endswith_def)
qed

lemma suffix_match_append:
  assumes "sfx \<in> set recognized_suffixes"
  shows "suffix_match (p @ sfx) = Some (length sfx)"
proof -
  have a: "\<not> endswith (p @ ''.json'') ''.json.zip''"
    by (auto simp: endswith_iff dest!: arg_cong [where f = rev])
  have b: "\<not> endswith (p @ ''.h5'') ''.json.zip''" "\<not> endswith (p @ ''.h5'') ''.json''"
    by (auto simp: endswith_iff dest!: arg_cong [where f = rev])
  have c: "\<not> endswith (p @ ''.slp'') ''.json.zip''" "\<not> endswith (p @ ''.slp'') ''.json''"
      "\<not> endswith (p @ ''.slp'') ''.h5''"
    by (auto simp: endswith_iff dest!: arg_cong [where f = rev])
  have d: "endswith (p @ sfx) sfx"
    by (auto simp: endswith_iff)
  show ?thesis
    using assms a b c d by (auto simp: recognized_suffixes_def suffix_match_def)
qed

lemma re_sub_suffix_append:
  assumes "sfx \<in> set recognized_suffixes"
  shows "re_sub_suffix (p @ sfx) = p"
proof -
  have nl: "last (p @ sfx) \<noteq> CHR 0x0A" and ne: "sfx \<noteq> []"
    using assms by (auto simp: recognized_suffixes_def)
  show ?thesis
    using nl by (simp add: re_sub_suffix_def suffix_match_append [OF assms])
qed

lemma suffix_match_None:
  "suffix_match p = None \<longleftrightarrow> (\<forall>s \<in> set recognized_suffixes. \<not> endswith p s)"
  by (auto simp: suffix_match_def recognized_suffixes_def)

lemma endswith_line_feed:
  "endswith p (s @ [c]) \<longleftrightarrow> p \<noteq> [] \<and> last p = c \<and> endswith (butlast p) s"
proof
  assume "endswith p (s @ [c])"
  then obtain q where "p = q @ s @ [c]" by (auto simp: endswith_iff)
  then show "p \<noteq> [] \<and> last p = c \<and> endswith (butlast p) s"
    by (auto simp: endswith_iff butlast_append)
next
  assume h: "p \<noteq> [] \<and> last p = c \<and> endswith (butlast p) s"
  then obtain q where "butlast p = q @ s" by (auto simp: endswith_iff)
  with h have "p = q @ s @ [c]"
    by (metis append_assoc append_butlast_last_id)
  then show "endswith p (s @ [c])" by (auto simp: endswith_iff)
qed

text \<open>
  Where the substitution strips exactly a suffix at the end: for a path that ends
  neither in a recognized suffix nor in one followed by a line feed, stripping leaves
  the path as it is, and the path with a recognized suffix appended strips back to it.
\<close>

lemma suffix_stripping_same_stem:
  assumes "\<forall>s \<in> set recognized_suffixes. \<not> endswith p s"
    and "\<forall>s \<in> set recognized_suffixes. \<not> endswith p (s @ [line_feed])"
    and "sfx \<in> set recognized_suffixes"
  shows "re_sub_suffix p = p
       \<and> re_sub_suffix (p @ sfx) = re_sub_suffix p
       \<and> path_stem (pure_path [re_sub_suffix (p @ sfx)]) = path_stem (pure_path [re_sub_suffix p])
       \<and> path_parent (pure_path [re_sub_suffix (p @ sfx)]) = path_parent (pure_path [re_sub_suffix p])"
proof -
  have n1: "suffix_match p = None"
    using assms(1) by (simp add: suffix_match_None)
  have n2: "p \<noteq> [] \<and> last p = CHR 0x0A \<longrightarrow> suffix_match (butlast p) = None"
    using assms(2) by (auto simp: suffix_match_None endswith_line_feed line_feed_def)
  have "re_sub_suffix p = p"
    using n1 n2 by (auto simp: re_sub_suffix_def)
  then show ?thesis
    by (simp add: re_sub_suffix_append [OF assms(3)])
qed

text \<open>
  Claim C8: for every input path that does not end in a recognized suffix, the stem
  after stripping equals the stem after stripping the path with a recognized suffix
  appended. The code breaks this for a path that ends in a recognized suffix followed
  by a line feed: the pattern is anchored with \<open>$\<close>, which also matches just before a
  final line feed, so a suffix that is not at the end is stripped. The path \<open>a.slp\<close>
  followed by a line feed ends in no recognized suffix; its stem after stripping is
  \<open>a\<close> followed by the line feed, and with \<open>.slp\<close> appended the stem is \<open>a\<close>.
\<close>

theorem suffix_before_line_feed_is_stripped:
  "\<not> endswith (''a.slp'' @ [line_feed]) ''.json''
   \<and> \<not> endswith (''a.slp'' @ [line_feed]) ''.json.zip''
   \<and> \<not> endswith (''a.slp'' @ [line_feed]) ''.h5''
   \<and> \<not> endswith (''a.slp'' @ [line_feed]) ''.slp''
   \<and> re_sub_suffix (''a.slp'' @ [line_feed]) = ''a'' @ [line_feed]
   \<and> re_sub_suffix ((''a.slp'' @ [line_feed]) @ ''.slp'') = ''a.slp'' @ [line_feed]
   \<and> path_stem (pure_path [re_sub_suffix (''a.slp'' @ [line_feed])]) = ''a'' @ [line_feed]
   \<and> path_stem (pure_path [re_sub_suffix ((''a.slp'' @ [line_feed]) @ ''.slp'')]) = ''a''"
  by code_simp

section \<open>Facts about pure paths\<close>

text \<open>
  Parsing yields values that satisfy the invariant; the string of such a value parses
  back to it; and joining it with a file name that is a single component appends that
  component.
\<close>

lemma split_sep_nonempty: "split_sep c s \<noteq> []"
  by (induction s) (auto split: list.splits)

lemma split_sep_no_sep: "w \<in> set (split_sep c s) \<Longrightarrow> c \<notin> set w"
  by (induction s arbitrary: w) (auto split: list.splits if_splits)

lemma split_sep_plain: "c \<notin> set x \<Longrightarrow> split_sep c x = [x]"
  by (induction x) auto

lemma split_sep_cons: "c \<notin> set x \<Longrightarrow> split_sep c (x @ c # rest) = x # split_sep c rest"
  by (induction x) (auto simp: split_sep_nonempty split: list.splits)

lemma split_sep_join:
  "ps \<noteq> [] \<Longrightarrow> \<forall>x \<in> set ps. c \<notin> set x \<Longrightarrow> split_sep c (join_str [c] ps) = ps"
proof (induction "[c]" ps rule: join_str.induct)
  case 1
  then show ?case by simp
next
  case (2 x)
  then show ?case by (simp add: split_sep_plain)
next
  case (3 x y zs)
  then show ?case by (simp add: split_sep_cons)
qed

lemma splitroot_root: "fst (splitroot s) \<in> {[], ''/'', ''//''}"
  by (simp add: splitroot_def Let_def)

lemma parse_segment_invariant: "path_invariant (parse_segment s)"
  using splitroot_root [of s]
  by (auto simp: path_invariant_def parse_segment_def split: prod.splits dest: split_sep_no_sep)

lemma pure_path_single: "pure_path [s] = parse_segment s"
  by (cases "parse_segment s") (auto simp: pure_path_def Let_def)

lemma pure_path_invariant: "path_invariant (pure_path [s])"
  by (simp add: pure_path_single parse_segment_invariant)

lemma path_parent_invariant: "path_invariant p \<Longrightarrow> path_invariant (path_parent p)"
  by (auto simp: path_invariant_def path_parent_def dest: in_set_butlastD)

lemma join_str_head:
  assumes "ps \<noteq> []" and "\<forall>x \<in> set ps. x \<noteq> [] \<and> x \<noteq> ''.'' \<and> CHR ''/'' \<notin> set x"
  shows "join_str ''/'' ps \<noteq> [] \<and> hd (join_str ''/'' ps) \<noteq> CHR ''/'' \<and> join_str ''/'' ps \<noteq> ''.''"
  using assms
proof (induction "''/''" ps rule: join_str.induct)
  case 1
  then show ?case by simp
next
  case (2 x)
  then show ?case by (cases x) auto
next
  case (3 x y zs)
  then show ?case by (cases x) (auto simp: Cons_eq_append_conv)
qed

lemma parse_segment_file:
  assumes "f \<noteq> []" and "f \<noteq> ''.''" and "CHR ''/'' \<notin> set f"
  shows "parse_segment f = PurePath [] [f]"
proof -
  have "hd f \<noteq> CHR ''/''" using assms by (cases f) auto
  then show ?thesis
    using assms by (simp add: parse_segment_def splitroot_def split_sep_plain)
qed

lemma parse_segment_path_str:
  assumes "path_invariant p"
  shows "parse_segment (path_str p) = p"
proof (cases "parts p = []")
  case True
  then show ?thesis
    using assms by (cases p) (auto simp: path_invariant_def path_str_def parse_segment_def splitroot_def)
next
  case False
  let ?j = "join_str ''/'' (parts p)"
  have inv: "\<forall>x \<in> set (parts p). x \<noteq> [] \<and> x \<noteq> ''.'' \<and> CHR ''/'' \<notin> set x"
    using assms by (simp add: path_invariant_def)
  have j: "?j \<noteq> []" "hd ?j \<noteq> CHR ''/''"
    using join_str_head [OF False inv] by simp_all
  have dw: "dropWhile (\<lambda>c. c = CHR ''/'') ?j = ?j"
    using j by (cases ?j) auto
  have sp: "split_sep (CHR ''/'') ?j = parts p"
    using split_sep_join [OF False, of "CHR ''/''"] inv by simp
  have fl: "filter (\<lambda>x. x \<noteq> [] \<and> x \<noteq> ''.'') (parts p) = parts p"
    using inv by (simp add: filter_id_conv)
  have r: "root p = [] \<or> root p = ''/'' \<or> root p = ''//''"
    using assms by (simp add: path_invariant_def)
  show ?thesis
    using r False j dw sp fl
    by (cases p) (auto simp: path_str_def parse_segment_def splitroot_def Let_def)
qed

lemma join_str_snoc: "join_str sep (ps @ [f]) = (if ps = [] then f else join_str sep ps @ sep @ f)"
  by (induction sep ps rule: join_str.induct) auto

lemma path_str_join_file:
  assumes "path_invariant p" and "f \<noteq> []" and "f \<noteq> ''.''" and "CHR ''/'' \<notin> set f"
  shows "path_str (pure_path [path_str p, f]) =
           (if parts p = [] then root p @ f else path_str p @ ''/'' @ f)"
proof -
  have "pure_path [path_str p, f] = PurePath (root p) (parts p @ [f])"
    using parse_segment_path_str [OF assms(1)] parse_segment_file [OF assms(2,3,4)]
    by (cases p) (auto simp: pure_path_def Let_def)
  then show ?thesis
    using assms(2) by (auto simp: path_str_def join_str_snoc)
qed

lemma path_str_cases:
  assumes "path_invariant p"
  shows "(parts p = [] \<and> root p = [] \<longleftrightarrow> path_str p = ''.'')
       \<and> (parts p = [] \<and> root p \<noteq> [] \<longleftrightarrow> path_str p = ''/'' \<or> path_str p = ''//'')
       \<and> (parts p = [] \<and> root p \<noteq> [] \<longrightarrow> path_str p = root p)"
proof (cases "parts p = []")
  case True
  then show ?thesis
    using assms by (auto simp: path_invariant_def path_str_def)
next
  case False
  let ?j = "join_str ''/'' (parts p)"
  have inv: "\<forall>x \<in> set (parts p). x \<noteq> [] \<and> x \<noteq> ''.'' \<and> CHR ''/'' \<notin> set x"
    using assms by (simp add: path_invariant_def)
  have j: "?j \<noteq> []" "hd ?j \<noteq> CHR ''/''" "?j \<noteq> ''.''"
    using join_str_head [OF False inv] by simp_all
  have r: "root p = [] \<or> root p = ''/'' \<or> root p = ''//''"
    using assms by (simp add: path_invariant_def)
  show ?thesis
    using r False j by (cases ?j) (auto simp: path_str_def)
qed

lemma path_str_join_file_explicit:
  assumes "path_invariant p" and "f \<noteq> []" and "f \<noteq> ''.''" and "CHR ''/'' \<notin> set f"
  shows "path_str (pure_path [path_str p, f]) =
           (if path_str p = ''.'' then f
            else if path_str p = ''/'' \<or> path_str p = ''//'' then path_str p @ f
            else path_str p @ ''/'' @ f)"
  using path_str_cases [OF assms(1)] path_str_join_file [OF assms]
  by (cases "parts p = []"; cases "root p = []") auto

lemma path_name_no_sep: "path_invariant p \<Longrightarrow> CHR ''/'' \<notin> set (path_name p)"
  by (auto simp: path_invariant_def path_name_def)

lemma path_stem_no_sep: "path_invariant p \<Longrightarrow> CHR ''/'' \<notin> set (path_stem p)"
  using path_name_no_sep [of p]
  by (auto simp: path_stem_def Let_def split: option.splits dest: in_set_takeD)


section \<open>Facts about the zero-padded index\<close>

text \<open>
  The padded index consists of decimal digits only and denotes the index, so two
  generated file names with the same prefix agree only on the same index.
\<close>

lemma digit_char_value:
  assumes "d < 10"
  shows "of_char (digit_char d) = (48 + d :: nat)"
  using assms by (simp add: digit_char_def)

lemma digits_range: "c \<in> set (digits n) \<Longrightarrow> 48 \<le> (of_char c :: nat) \<and> (of_char c :: nat) < 58"
proof (induction n arbitrary: c rule: digits.induct)
  case (1 n)
  show ?case
  proof (cases "n < 10")
    case True
    with "1.prems" show ?thesis
      using digit_char_value [of n] by (simp add: digits.simps [of n])
  next
    case False
    have "n mod 10 < 10" by simp
    then have "of_char (digit_char (n mod 10)) = (48 + n mod 10 :: nat)"
      by (rule digit_char_value)
    with False "1.prems" "1.IH" show ?thesis
      by (auto simp: digits.simps [of n])
  qed
qed

lemma format_03_range:
  assumes "c \<in> set (format_03 n)"
  shows "48 \<le> (of_char c :: nat) \<and> (of_char c :: nat) < 58"
proof (cases "c \<in> set (digits n)")
  case True
  then show ?thesis by (rule digits_range)
next
  case False
  with assms have "c = CHR ''0''"
    by (auto simp: format_03_def)
  then show ?thesis by simp
qed

lemma format_03_no_underscore: "CHR ''_'' \<notin> set (format_03 n)"
proof
  assume "CHR ''_'' \<in> set (format_03 n)"
  then have "48 \<le> (of_char (CHR ''_'') :: nat) \<and> (of_char (CHR ''_'') :: nat) < 58"
    by (rule format_03_range)
  then show False by simp
qed

lemma format_03_no_sep: "CHR ''/'' \<notin> set (format_03 n)"
proof
  assume "CHR ''/'' \<in> set (format_03 n)"
  then have "48 \<le> (of_char (CHR ''/'') :: nat) \<and> (of_char (CHR ''/'') :: nat) < 58"
    by (rule format_03_range)
  then show False by simp
qed

lemma digits_value: "foldl (\<lambda>a c. 10 * a + (of_char c - 48)) (0::nat) (digits n) = n"
proof (induction n rule: digits.induct)
  case (1 n)
  show ?case
  proof (cases "n < 10")
    case True
    then show ?thesis
      by (simp add: digits.simps [of n] digit_char_value)
  next
    case False
    have "n mod 10 < 10" by simp
    then have "of_char (digit_char (n mod 10)) = (48 + n mod 10 :: nat)"
      by (rule digit_char_value)
    with False "1.IH" show ?thesis
      by (simp add: digits.simps [of n])
  qed
qed

lemma zeros_value:
  "foldl (\<lambda>a c. 10 * a + (of_char c - 48)) (0::nat) (replicate k (CHR ''0'')) = 0"
proof (induction k)
  case 0
  then show ?case by simp
next
  case (Suc k)
  have "foldl (\<lambda>a c. 10 * a + (of_char c - 48)) (0::nat) (replicate (Suc k) (CHR ''0''))
      = foldl (\<lambda>a c. 10 * a + (of_char c - 48)) (0::nat) (replicate k (CHR ''0''))"
    by simp
  then show ?case by (simp only: Suc.IH)
qed

lemma format_03_value: "foldl (\<lambda>a c. 10 * a + (of_char c - 48)) (0::nat) (format_03 n) = n"
  unfolding format_03_def foldl_append zeros_value by (rule digits_value)

lemma format_03_inj:
  assumes "format_03 i = format_03 j"
  shows "i = j"
proof -
  have "i = foldl (\<lambda>a c. 10 * a + (of_char c - 48)) (0::nat) (format_03 i)"
    by (simp only: format_03_value)
  also have "\<dots> = foldl (\<lambda>a c. 10 * a + (of_char c - 48)) (0::nat) (format_03 j)"
    by (simp only: assms)
  also have "\<dots> = j"
    by (simp only: format_03_value)
  finally show ?thesis .
qed

lemma takeWhile_until:
  "x \<notin> set a \<Longrightarrow> takeWhile (\<lambda>c. c \<noteq> x) (a @ x # r) = a"
  by (induction a) auto

lemma append_sep_eq:
  assumes "x \<notin> set a" and "x \<notin> set b" and "a @ x # r = b @ x # s"
  shows "a = b"
  using takeWhile_until [OF assms(1), of r] takeWhile_until [OF assms(2), of s] assms(3)
  by simp

lemma file_name_inj:
  assumes "pre @ ''.'' @ format_03 i @ ''_'' @ r = pre @ ''.'' @ format_03 j @ ''_'' @ s"
  shows "i = j"
proof -
  from assms have "format_03 i @ CHR ''_'' # r = format_03 j @ CHR ''_'' # s" by simp
  then have "format_03 i = format_03 j"
    using append_sep_eq [OF format_03_no_underscore format_03_no_underscore] by blast
  then show ?thesis by (rule format_03_inj)
qed

section \<open>Facts about video selection and the planned names\<close>

lemma index_of_Some: "index_of xs v = Some i \<Longrightarrow> i < length xs \<and> xs ! i = v"
  by (induction xs arbitrary: i) (auto split: if_splits)

lemma index_of_member: "v \<in> set xs \<Longrightarrow> \<exists>i. index_of xs v = Some i"
  by (induction xs) auto

lemma first_match_subset: "set (first_match q vs) \<subseteq> set vs"
  by (induction vs) auto

lemma first_match_distinct: "distinct (first_match q vs)"
  by (induction vs) auto

lemma select_videos_subset: "set (select_videos a labels) \<subseteq> set (videos labels)"
  using first_match_subset by (auto simp: select_videos_def)

lemma select_videos_distinct: "distinct (videos labels) \<Longrightarrow> distinct (select_videos a labels)"
  by (simp add: select_videos_def first_match_distinct)

lemma default_analysis_filename_member:
  assumes "v \<in> set (videos labels)"
  shows "\<exists>i name. index_of (videos labels) v = Some i
           \<and> default_analysis_filename labels v d pre sfx = Inr name"
  using index_of_member [OF assms] by (auto simp: default_analysis_filename_def Let_def)

lemma append_defaults_names:
  assumes "set vs \<subseteq> set (videos labels)"
  shows "\<exists>names. append_defaults labels d pre sfx vs outnames = Inr (outnames @ names)
           \<and> length names = length vs
           \<and> (\<forall>k < length vs. default_analysis_filename labels (vs ! k) d pre sfx = Inr (names ! k))"
  using assms
proof (induction vs arbitrary: outnames)
  case Nil
  then show ?case by simp
next
  case (Cons v vs)
  from Cons.prems obtain i name where n: "default_analysis_filename labels v d pre sfx = Inr name"
    using default_analysis_filename_member [of v labels d pre sfx] by auto
  from Cons.prems have "set vs \<subseteq> set (videos labels)" by simp
  from Cons.IH [OF this, of "outnames @ [name]"] obtain names where
    ns: "append_defaults labels d pre sfx vs (outnames @ [name]) = Inr ((outnames @ [name]) @ names)"
      "length names = length vs"
      "\<forall>k < length vs. default_analysis_filename labels (vs ! k) d pre sfx = Inr (names ! k)"
    by blast
  have "append_defaults labels d pre sfx (v # vs) outnames = Inr (outnames @ (name # names))"
    using n ns(1) by simp
  moreover have "length (name # names) = length (v # vs)"
    using ns(2) by simp
  moreover have "\<forall>k < length (v # vs).
       default_analysis_filename labels ((v # vs) ! k) d pre sfx = Inr ((name # names) ! k)"
    using n ns(3) by (auto simp: nth_Cons split: nat.splits)
  ultimately show ?case by blast
qed

lemma plan_targets_shape:
  fixes a labels
  defines "vids \<equiv> select_videos a labels"
    and "d \<equiv> path_str (path_parent (pure_path [re_sub_suffix (input_path a)]))"
    and "pre \<equiv> path_stem (pure_path [re_sub_suffix (input_path a)])"
    and "sfx \<equiv> (if str_in ''nix'' (format a) then ''nix'' else ''h5'')"
  shows "\<exists>names. plan_targets a labels = Inr (zip vids (outputs a @ names))
           \<and> length names = length vids - length (outputs a)
           \<and> (\<forall>k < length names.
                 default_analysis_filename labels (vids ! (length (outputs a) + k)) d pre sfx
                   = Inr (names ! k))"
proof (cases "length (outputs a) < length vids")
  case True
  have sub: "set (drop (length (outputs a)) vids) \<subseteq> set (videos labels)"
    using select_videos_subset [of a labels] set_drop_subset [of "length (outputs a)" vids]
    by (auto simp: vids_def)
  from append_defaults_names [OF sub, of d pre sfx "outputs a"] obtain names where
    ns: "append_defaults labels d pre sfx (drop (length (outputs a)) vids) (outputs a)
           = Inr (outputs a @ names)"
      "length names = length (drop (length (outputs a)) vids)"
      "\<forall>k < length (drop (length (outputs a)) vids).
          default_analysis_filename labels (drop (length (outputs a)) vids ! k) d pre sfx
            = Inr (names ! k)"
    by blast
  have "plan_targets a labels = Inr (zip vids (outputs a @ names))"
    using True ns(1) by (simp add: plan_targets_def plan_outnames_def Let_def vids_def d_def pre_def sfx_def)
  moreover have "length names = length vids - length (outputs a)"
    using ns(2) by simp
  moreover have "\<forall>k < length names.
                 default_analysis_filename labels (vids ! (length (outputs a) + k)) d pre sfx
                   = Inr (names ! k)"
    using ns(2,3) True by simp
  ultimately show ?thesis by blast
next
  case False
  then have "plan_targets a labels = Inr (zip vids (outputs a @ []))"
    by (simp add: plan_targets_def plan_outnames_def Let_def vids_def)
  moreover have "length ([]::string list) = length vids - length (outputs a)"
    using False by simp
  ultimately show ?thesis by (intro exI [of _ "[]"]) simp
qed

lemma default_name_explicit:
  assumes "index_of (videos labels) v = Some i"
    and "path_invariant p"
    and "CHR ''/'' \<notin> set pre"
    and "sfx = ''nix'' \<or> sfx = ''h5''"
    and "file = pre @ ''.'' @ format_03 i @ ''_'' @ path_stem (pure_path [backend_filename v])
                  @ ''.analysis.'' @ sfx"
  shows "default_analysis_filename labels v (path_str p) pre sfx =
           Inr (if path_str p = ''.'' then file
                else if path_str p = ''/'' \<or> path_str p = ''//'' then path_str p @ file
                else path_str p @ ''/'' @ file)"
proof -
  have "CHR ''/'' \<notin> set (path_stem (pure_path [backend_filename v]))"
    by (rule path_stem_no_sep [OF pure_path_invariant])
  then have ns: "CHR ''/'' \<notin> set file"
    using assms(3,4) format_03_no_sep [of i] by (auto simp: assms(5))
  have ne: "file \<noteq> []" "file \<noteq> ''.''"
    by (auto simp: assms(5) Cons_eq_append_conv)
  have "default_analysis_filename labels v (path_str p) pre sfx =
          Inr (path_str (pure_path [path_str p, file]))"
    using assms(1) by (simp add: default_analysis_filename_def Let_def assms(5))
  then show ?thesis
    by (simp only: path_str_join_file_explicit [OF assms(2) ne ns])
qed

lemma planned_auto_name:
  fixes a labels
  defines "fn \<equiv> pure_path [re_sub_suffix (input_path a)]"
  defines "dir \<equiv> path_str (path_parent fn)"
    and "sfx \<equiv> (if str_in ''nix'' (format a) then ''nix'' else ''h5'')"
  assumes "plan_targets a labels = Inr ts"
    and "length (outputs a) \<le> k"
    and "k < length ts"
  shows "\<exists>i. index_of (videos labels) (fst (ts ! k)) = Some i
           \<and> k < length (select_videos a labels)
           \<and> fst (ts ! k) = select_videos a labels ! k
           \<and> snd (ts ! k) =
               (let file = path_stem fn @ ''.'' @ format_03 i @ ''_''
                             @ path_stem (pure_path [backend_filename (fst (ts ! k))])
                             @ ''.analysis.'' @ sfx
                in if dir = ''.'' then file
                   else if dir = ''/'' \<or> dir = ''//'' then dir @ file
                   else dir @ ''/'' @ file)"
proof -
  let ?vids = "select_videos a labels"
  let ?E = "length (outputs a)"
  from plan_targets_shape [of a labels] obtain names where
    pl: "plan_targets a labels = Inr (zip ?vids (outputs a @ names))"
    and ln: "length names = length ?vids - ?E"
    and nm: "\<forall>j < length names.
               default_analysis_filename labels (?vids ! (?E + j)) dir (path_stem fn) sfx
               = Inr (names ! j)"
    unfolding fn_def dir_def sfx_def by blast
  have ts: "ts = zip ?vids (outputs a @ names)"
    using pl assms(4) by simp
  have kv: "k < length ?vids"
    using assms(6) ts by simp
  have kn: "k - ?E < length names"
    using kv assms(5) ln by simp
  have f: "fst (ts ! k) = ?vids ! k"
    using assms(6) ts by simp
  have sn: "snd (ts ! k) = names ! (k - ?E)"
    using assms(5,6) ts by (simp add: nth_append)
  have "?vids ! k \<in> set ?vids"
    using kv by (rule nth_mem)
  then have "?vids ! k \<in> set (videos labels)"
    by (rule subsetD [OF select_videos_subset])
  then have "\<exists>i. index_of (videos labels) (?vids ! k) = Some i"
    by (rule index_of_member)
  then obtain i where i: "index_of (videos labels) (?vids ! k) = Some i" ..
  have inv: "path_invariant (path_parent fn)"
    unfolding fn_def by (rule path_parent_invariant [OF pure_path_invariant])
  have pre: "CHR ''/'' \<notin> set (path_stem fn)"
    unfolding fn_def by (rule path_stem_no_sep [OF pure_path_invariant])
  have sf: "sfx = ''nix'' \<or> sfx = ''h5''"
    by (simp add: sfx_def)
  define fname where "fname = path_stem fn @ ''.'' @ format_03 i @ ''_''
                             @ path_stem (pure_path [backend_filename (?vids ! k)])
                             @ ''.analysis.'' @ sfx"
  have "?E + (k - ?E) = k"
    using assms(5) by simp
  moreover have "default_analysis_filename labels (?vids ! (?E + (k - ?E))) dir (path_stem fn) sfx
                   = Inr (names ! (k - ?E))"
    using nm kn by blast
  ultimately have d1: "default_analysis_filename labels (?vids ! k) dir (path_stem fn) sfx
                   = Inr (names ! (k - ?E))"
    by (simp only:)
  have d2: "default_analysis_filename labels (?vids ! k) dir (path_stem fn) sfx =
      Inr (if dir = ''.'' then fname
           else if dir = ''/'' \<or> dir = ''//'' then dir @ fname
           else dir @ ''/'' @ fname)"
    unfolding dir_def
    by (rule default_name_explicit [OF i inv pre sf fname_def])
  have "names ! (k - ?E) =
      (if dir = ''.'' then fname
           else if dir = ''/'' \<or> dir = ''//'' then dir @ fname
           else dir @ ''/'' @ fname)"
    using d1 d2 by (simp only: sum.inject)
  then have "snd (ts ! k) =
      (if dir = ''.'' then fname
           else if dir = ''/'' \<or> dir = ''//'' then dir @ fname
           else dir @ ''/'' @ fname)"
    by (simp only: sn)
  then have "snd (ts ! k) =
               (let file = path_stem fn @ ''.'' @ format_03 i @ ''_''
                             @ path_stem (pure_path [backend_filename (fst (ts ! k))])
                             @ ''.analysis.'' @ sfx
                in if dir = ''.'' then file
                   else if dir = ''/'' \<or> dir = ''//'' then dir @ file
                   else dir @ ''/'' @ file)"
    unfolding Let_def fname_def f .
  moreover have "index_of (videos labels) (fst (ts ! k)) = Some i"
    by (simp only: f i)
  ultimately show ?thesis
    using kv f by blast
qed


section \<open>One target per selected video\<close>

text \<open>
  Claim C1. Planning an analysis export never fails and gives exactly one target per
  selected video, in selection order. With \<open>E\<close> explicit output paths and \<open>V\<close> selected
  videos, target \<open>k\<close> takes the \<open>k\<close>-th explicit path when \<open>k < E\<close> and the
  automatically generated path of the \<open>k\<close>-th selected video otherwise; when \<open>V \<le> E\<close> the
  paths are the first \<open>V\<close> explicit paths, the others being unused.
\<close>

theorem plan_targets_one_per_video:
  "\<exists>ts. plan_targets a labels = Inr ts
      \<and> length ts = length (select_videos a labels)
      \<and> map fst ts = select_videos a labels
      \<and> (\<forall>k < length ts. k < length (outputs a) \<longrightarrow> snd (ts ! k) = outputs a ! k)
      \<and> (\<forall>k < length ts. length (outputs a) \<le> k \<longrightarrow>
            default_analysis_filename labels (select_videos a labels ! k)
              (path_str (path_parent (pure_path [re_sub_suffix (input_path a)])))
              (path_stem (pure_path [re_sub_suffix (input_path a)]))
              (if str_in ''nix'' (format a) then ''nix'' else ''h5'')
            = Inr (snd (ts ! k)))
      \<and> (length (select_videos a labels) \<le> length (outputs a) \<longrightarrow>
            map snd ts = take (length (select_videos a labels)) (outputs a))"
proof -
  let ?vids = "select_videos a labels"
  let ?E = "length (outputs a)"
  from plan_targets_shape [of a labels] obtain names where
    pl: "plan_targets a labels = Inr (zip ?vids (outputs a @ names))"
    and ln: "length names = length ?vids - ?E"
    and nm: "\<forall>k < length names.
               default_analysis_filename labels (?vids ! (?E + k))
                 (path_str (path_parent (pure_path [re_sub_suffix (input_path a)])))
                 (path_stem (pure_path [re_sub_suffix (input_path a)]))
                 (if str_in ''nix'' (format a) then ''nix'' else ''h5'')
               = Inr (names ! k)"
    by blast
  let ?ts = "zip ?vids (outputs a @ names)"
  have len: "length ?ts = length ?vids"
    using ln by simp
  have fst: "map fst ?ts = ?vids"
    using ln by (simp add: map_fst_zip_take)
  have expl: "\<forall>k < length ?ts. k < ?E \<longrightarrow> snd (?ts ! k) = outputs a ! k"
    by (simp add: nth_append)
  have auto_names: "\<forall>k < length ?ts. ?E \<le> k \<longrightarrow>
            default_analysis_filename labels (?vids ! k)
              (path_str (path_parent (pure_path [re_sub_suffix (input_path a)])))
              (path_stem (pure_path [re_sub_suffix (input_path a)]))
              (if str_in ''nix'' (format a) then ''nix'' else ''h5'')
            = Inr (snd (?ts ! k))"
  proof (intro allI impI)
    fix k
    assume k: "k < length ?ts" and e: "?E \<le> k"
    then have "k - ?E < length names"
      using ln by simp
    with nm have "default_analysis_filename labels (?vids ! (?E + (k - ?E)))
                 (path_str (path_parent (pure_path [re_sub_suffix (input_path a)])))
                 (path_stem (pure_path [re_sub_suffix (input_path a)]))
                 (if str_in ''nix'' (format a) then ''nix'' else ''h5'')
               = Inr (names ! (k - ?E))"
      by blast
    moreover have "snd (?ts ! k) = names ! (k - ?E)"
      using k e by (simp add: nth_append)
    ultimately show "default_analysis_filename labels (?vids ! k)
              (path_str (path_parent (pure_path [re_sub_suffix (input_path a)])))
              (path_stem (pure_path [re_sub_suffix (input_path a)]))
              (if str_in ''nix'' (format a) then ''nix'' else ''h5'')
            = Inr (snd (?ts ! k))"
      using e by simp
  qed
  have surplus: "length ?vids \<le> ?E \<longrightarrow> map snd ?ts = take (length ?vids) (outputs a)"
    using ln by (simp add: map_snd_zip_take)
  show ?thesis
    using pl len fst expl auto_names surplus by blast
qed


text \<open>
  Two videos with one explicit path: the first target takes it and the second is
  generated. Two videos with three explicit paths: the third path is unused.
\<close>

theorem plan_targets_one_per_video_witness:
  "plan_targets (args_of ''data.json.zip'' [''out.nix''] ''analysis.nix'' []) proj2 =
     Inr [(camA, ''out.nix''), (camB, ''data.001_camB.analysis.nix'')]
   \<and> select_videos (args_of ''data.json.zip'' [''out.nix''] ''analysis.nix'' []) proj2 = [camA, camB]
   \<and> plan_targets (args_of ''proj.slp'' [''a.h5'', ''b.h5'', ''c.h5''] ''analysis'' []) proj2 =
     Inr [(camA, ''a.h5''), (camB, ''b.h5'')]"
proof -
  let ?a = "args_of ''data.json.zip'' [''out.nix''] ''analysis.nix'' []"
  let ?b = "args_of ''proj.slp'' [''a.h5'', ''b.h5'', ''c.h5''] ''analysis'' []"
  have sa: "select_videos ?a proj2 = [camA, camB]" and sb: "select_videos ?b proj2 = [camA, camB]"
    by (simp_all add: select_videos_def args_of_def proj2_def)
  have oa: "outputs ?a = [''out.nix'']" and ob: "outputs ?b = [''a.h5'', ''b.h5'', ''c.h5'']"
    by (simp_all add: args_of_def)
  have da: "default_analysis_filename proj2 camB
              (path_str (path_parent (pure_path [re_sub_suffix (input_path ?a)])))
              (path_stem (pure_path [re_sub_suffix (input_path ?a)]))
              (if str_in ''nix'' (format ?a) then ''nix'' else ''h5'')
            = Inr ''data.001_camB.analysis.nix''"
    by code_simp
  from plan_targets_one_per_video [of ?a proj2] obtain ts where
    t: "plan_targets ?a proj2 = Inr ts" "length ts = 2" "map fst ts = [camA, camB]"
      "\<forall>k < length ts. k < length (outputs ?a) \<longrightarrow> snd (ts ! k) = outputs ?a ! k"
      "\<forall>k < length ts. length (outputs ?a) \<le> k \<longrightarrow>
            default_analysis_filename proj2 (select_videos ?a proj2 ! k)
              (path_str (path_parent (pure_path [re_sub_suffix (input_path ?a)])))
              (path_stem (pure_path [re_sub_suffix (input_path ?a)]))
              (if str_in ''nix'' (format ?a) then ''nix'' else ''h5'')
            = Inr (snd (ts ! k))"
    unfolding sa by auto
  from t(2) obtain x y where xy: "ts = [x, y]"
    by (auto simp: length_Suc_conv numeral_2_eq_2)
  have "snd x = ''out.nix''"
    using t(4) xy by (auto simp: oa)
  moreover have "snd y = ''data.001_camB.analysis.nix''"
    using t(5) [unfolded sa oa da [symmetric]] xy da by (auto simp: oa)
  moreover have "fst x = camA" "fst y = camB"
    using t(3) xy by simp_all
  ultimately have ta: "ts = [(camA, ''out.nix''), (camB, ''data.001_camB.analysis.nix'')]"
    using xy by (cases x; cases y) simp
  from plan_targets_one_per_video [of ?b proj2] obtain us where
    u: "plan_targets ?b proj2 = Inr us" "map fst us = [camA, camB]"
      "map snd us = take 2 (outputs ?b)"
    unfolding sb by (auto simp: ob)
  have "us = zip (map fst us) (map snd us)"
    by (simp add: zip_map_fst_snd)
  then have tb: "us = [(camA, ''a.h5''), (camB, ''b.h5'')]"
    unfolding u(2,3) ob by (simp add: numeral_2_eq_2)
  show ?thesis
    using t(1) ta sa u(1) tb by simp
qed


section \<open>The automatically generated path\<close>




section \<open>Distinct output paths\<close>

lemma shape_inj:
  assumes "(if b then f1 else if c then d @ f1 else d @ e @ f1)
         = (if b then f2 else if c then d @ f2 else d @ e @ f2)"
  shows "f1 = f2"
  using assms by (cases b; cases c) simp_all

lemma planned_auto_names_differ:
  assumes "distinct (videos labels)"
    and "plan_targets a labels = Inr ts"
    and "length (outputs a) \<le> k1" and "k1 < length ts"
    and "length (outputs a) \<le> k2" and "k2 < length ts"
    and "k1 \<noteq> k2"
  shows "snd (ts ! k1) \<noteq> snd (ts ! k2)"
proof
  assume eq: "snd (ts ! k1) = snd (ts ! k2)"
  let ?vids = "select_videos a labels"
  define fn where "fn = pure_path [re_sub_suffix (input_path a)]"
  define dir where "dir = path_str (path_parent fn)"
  define sfx where "sfx = (if str_in ''nix'' (format a) then ''nix'' else ''h5'')"
  define r1 where "r1 = path_stem (pure_path [backend_filename (fst (ts ! k1))]) @ ''.analysis.'' @ sfx"
  define r2 where "r2 = path_stem (pure_path [backend_filename (fst (ts ! k2))]) @ ''.analysis.'' @ sfx"
  from planned_auto_name [OF assms(2,3,4)] obtain i1 where
    i1: "index_of (videos labels) (fst (ts ! k1)) = Some i1"
    and v1: "k1 < length ?vids" "fst (ts ! k1) = ?vids ! k1"
    and s1: "snd (ts ! k1) =
               (if dir = ''.'' then path_stem fn @ ''.'' @ format_03 i1 @ ''_'' @ r1
                else if dir = ''/'' \<or> dir = ''//'' then dir @ path_stem fn @ ''.'' @ format_03 i1 @ ''_'' @ r1
                else dir @ ''/'' @ path_stem fn @ ''.'' @ format_03 i1 @ ''_'' @ r1)"
    unfolding Let_def fn_def dir_def sfx_def r1_def append_assoc by blast
  from planned_auto_name [OF assms(2,5,6)] obtain i2 where
    i2: "index_of (videos labels) (fst (ts ! k2)) = Some i2"
    and v2: "k2 < length ?vids" "fst (ts ! k2) = ?vids ! k2"
    and s2: "snd (ts ! k2) =
               (if dir = ''.'' then path_stem fn @ ''.'' @ format_03 i2 @ ''_'' @ r2
                else if dir = ''/'' \<or> dir = ''//'' then dir @ path_stem fn @ ''.'' @ format_03 i2 @ ''_'' @ r2
                else dir @ ''/'' @ path_stem fn @ ''.'' @ format_03 i2 @ ''_'' @ r2)"
    unfolding Let_def fn_def dir_def sfx_def r2_def append_assoc by blast
  have "path_stem fn @ ''.'' @ format_03 i1 @ ''_'' @ r1 = path_stem fn @ ''.'' @ format_03 i2 @ ''_'' @ r2"
    using eq unfolding s1 s2 by (rule shape_inj)
  then have "i1 = i2" by (rule file_name_inj)
  moreover have "videos labels ! i1 = ?vids ! k1" "videos labels ! i2 = ?vids ! k2"
    using index_of_Some [OF i1] index_of_Some [OF i2] v1(2) v2(2) by simp_all
  ultimately have "?vids ! k1 = ?vids ! k2" by simp
  moreover have "distinct ?vids"
    by (rule select_videos_distinct [OF assms(1)])
  ultimately have "k1 = k2"
    using v1(1) v2(1) by (simp add: nth_eq_iff_index_eq)
  with assms(7) show False by simp
qed


text \<open>
  Claim C7 as stated fails: nothing keeps an explicit path apart from a generated one.
  With two distinct videos and the single explicit path \<open>proj.001_camB.analysis.h5\<close>,
  the first target takes the explicit path and the second target's generated path is
  the same string.
\<close>

theorem explicit_path_meets_generated_counterexample:
  "distinct (videos proj2)
   \<and> distinct (outputs (args_of ''proj.slp'' [''proj.001_camB.analysis.h5''] ''analysis'' []))
   \<and> plan_targets (args_of ''proj.slp'' [''proj.001_camB.analysis.h5''] ''analysis'' []) proj2 =
       Inr [(camA, ''proj.001_camB.analysis.h5''), (camB, ''proj.001_camB.analysis.h5'')]"
  by code_simp

text \<open>
  Claim C7, amended. In an analysis export over pairwise distinct videos, the
  automatically generated paths are pairwise distinct, each embedding its video's own
  zero-padded index; the targets that take explicit paths are pairwise distinct when
  the explicit paths are; and all target paths are pairwise distinct when in addition
  no explicit path used equals a generated one.
\<close>

theorem generated_paths_pairwise_distinct:
  assumes "distinct (videos labels)"
    and "plan_targets a labels = Inr ts"
  shows "distinct (drop (length (outputs a)) (map snd ts))
       \<and> (distinct (outputs a) \<longrightarrow> distinct (take (length (outputs a)) (map snd ts)))
       \<and> (distinct (outputs a)
            \<and> set (take (length (outputs a)) (map snd ts))
                \<inter> set (drop (length (outputs a)) (map snd ts)) = {}
          \<longrightarrow> distinct (map snd ts))"
proof -
  let ?E = "length (outputs a)"
  let ?vids = "select_videos a labels"
  have gen: "distinct (drop ?E (map snd ts))"
    unfolding distinct_conv_nth
  proof (intro allI impI)
    fix i j
    assume i: "i < length (drop ?E (map snd ts))"
      and j: "j < length (drop ?E (map snd ts))"
      and ij: "i \<noteq> j"
    have "snd (ts ! (?E + i)) \<noteq> snd (ts ! (?E + j))"
      using i j ij by (intro planned_auto_names_differ [OF assms]) simp_all
    then show "drop ?E (map snd ts) ! i \<noteq> drop ?E (map snd ts) ! j"
      using i j by simp
  qed
  from plan_targets_shape [of a labels] obtain names where
    pl: "plan_targets a labels = Inr (zip ?vids (outputs a @ names))"
    and ln: "length names = length ?vids - ?E"
    by blast
  from pl assms(2) have ts: "ts = zip ?vids (outputs a @ names)" by simp
  have m: "min (length ?vids) (length (outputs a @ names)) = length ?vids"
    using ln by simp
  have "map snd ts = take (length ?vids) (outputs a @ names)"
    unfolding ts map_snd_zip_take m ..
  then have "take ?E (map snd ts) = take (min ?E (length ?vids)) (outputs a @ names)"
    by (simp only: take_take)
  also have "\<dots> = take (min ?E (length ?vids)) (outputs a)"
    by simp
  finally have "take ?E (map snd ts) = take (min ?E (length ?vids)) (outputs a)" .
  then have expl: "distinct (outputs a) \<longrightarrow> distinct (take ?E (map snd ts))"
    by simp
  have "map snd ts = take ?E (map snd ts) @ drop ?E (map snd ts)"
    by simp
  then have "distinct (take ?E (map snd ts)) \<and> distinct (drop ?E (map snd ts))
            \<and> set (take ?E (map snd ts)) \<inter> set (drop ?E (map snd ts)) = {}
          \<longrightarrow> distinct (map snd ts)"
    by (metis distinct_append)
  with gen expl show ?thesis by blast
qed

theorem generated_paths_pairwise_distinct_witness:
  "plan_targets (args_of ''proj.slp'' [] ''analysis'' []) proj2 =
     Inr [(camA, ''proj.000_camA.analysis.h5''), (camB, ''proj.001_camB.analysis.h5'')]
   \<and> distinct (videos proj2)
   \<and> distinct [''proj.000_camA.analysis.h5'', ''proj.001_camB.analysis.h5'']"
proof -
  let ?a = "args_of ''proj.slp'' [] ''analysis'' []"
  have pl: "plan_targets ?a proj2 =
     Inr [(camA, ''proj.000_camA.analysis.h5''), (camB, ''proj.001_camB.analysis.h5'')]"
    by code_simp
  have d: "distinct (videos proj2)"
    by (simp add: proj2_def camA_def camB_def)
  have o: "outputs ?a = []"
    by (simp add: args_of_def)
  show ?thesis
    using generated_paths_pairwise_distinct [OF d pl] pl d by (simp add: o)
qed


section \<open>The explicit output list is not changed\<close>

text \<open>
  The loop over the store does to the object \<open>outnames\<close> what the loop over values
  does to its list, and touches no other object.
\<close>

lemma append_defaults_heap_refines:
  assumes "r < length h"
  shows "append_defaults_heap labels d pre sfx vs h r =
           (case append_defaults labels d pre sfx vs (h ! r) of
              Inl err \<Rightarrow> Inl err
            | Inr names \<Rightarrow> Inr (h[r := names]))"
  using assms
proof (induction vs arbitrary: h)
  case Nil
  then show ?case by simp
next
  case (Cons v vs)
  show ?case
  proof (cases "default_analysis_filename labels v d pre sfx")
    case (Inl err)
    then show ?thesis by simp
  next
    case (Inr name)
    have len: "r < length (heap_append h r name)"
      using Cons.prems by (simp add: heap_append_def)
    have at: "heap_append h r name ! r = h ! r @ [name]"
      using Cons.prems by (simp add: heap_append_def)
    have ov: "\<And>names. (heap_append h r name)[r := names] = h[r := names]"
      by (simp add: heap_append_def)
    show ?thesis
      using Inr Cons.IH [OF len] by (simp add: at ov split: sum.splits)
  qed
qed

text \<open>
  Claim C10. Planning copies the parsed output list into a new list object and appends
  the generated names to the copy only: for every store in which \<open>args.outputs\<close> is a
  list object and every selection of project videos, planning succeeds, the object
  \<open>args.outputs\<close> and every other object that existed before hold what they held,
  \<open>outnames\<close> is a different object, and its content is the list of names the planner
  computes from the explicit paths. The writers are then given strings from \<open>outnames\<close>
  only, so the explicit list is as the user supplied it after dispatch as well.
\<close>

theorem planning_keeps_explicit_outputs:
  assumes "outputs_ref < length h"
    and "set vids \<subseteq> set (videos labels)"
  shows "\<exists>h' outnames.
           plan_outnames_heap h outputs_ref inp fmt labels vids = Inr (h', outnames)
           \<and> h' ! outputs_ref = h ! outputs_ref
           \<and> outnames \<noteq> outputs_ref
           \<and> (\<forall>r < length h. h' ! r = h ! r)
           \<and> plan_outnames (args_of inp (h ! outputs_ref) fmt vid) labels vids = Inr (h' ! outnames)"
proof -
  let ?outs = "h ! outputs_ref"
  let ?h1 = "h @ [?outs]"
  let ?d = "path_str (path_parent (pure_path [re_sub_suffix inp]))"
  let ?pre = "path_stem (pure_path [re_sub_suffix inp])"
  let ?sfx = "if str_in ''nix'' fmt then ''nix'' else ''h5''"
  have al: "heap_alloc h ?outs = (?h1, length h)"
    by (simp add: heap_alloc_def)
  have at: "?h1 ! length h = ?outs"
    by simp
  show ?thesis
  proof (cases "length ?outs < length vids")
    case False
    have "plan_outnames_heap h outputs_ref inp fmt labels vids = Inr (?h1, length h)"
      using False by (simp add: plan_outnames_heap_def al)
    moreover have "plan_outnames (args_of inp ?outs fmt vid) labels vids = Inr (?h1 ! length h)"
      using False by (simp add: plan_outnames_def args_of_def)
    moreover have "?h1 ! outputs_ref = ?outs" "length h \<noteq> outputs_ref" "\<forall>r < length h. ?h1 ! r = h ! r"
      using assms(1) by (simp_all add: nth_append)
    ultimately show ?thesis by blast
  next
    case True
    have sub: "set (drop (length ?outs) vids) \<subseteq> set (videos labels)"
      using assms(2) set_drop_subset [of "length ?outs" vids] by blast
    from append_defaults_names [OF sub, of ?d ?pre ?sfx ?outs] obtain names where
      ns: "append_defaults labels ?d ?pre ?sfx (drop (length ?outs) vids) ?outs = Inr (?outs @ names)"
      by blast
    have lt: "length h < length ?h1" by simp
    have "append_defaults_heap labels ?d ?pre ?sfx (drop (length ?outs) vids) ?h1 (length h)
            = Inr (?h1[length h := ?outs @ names])"
      unfolding append_defaults_heap_refines [OF lt] at ns by simp
    then have "plan_outnames_heap h outputs_ref inp fmt labels vids
                 = Inr (?h1[length h := ?outs @ names], length h)"
      using True by (simp add: plan_outnames_heap_def al Let_def)
    moreover have "plan_outnames (args_of inp ?outs fmt vid) labels vids
                 = Inr (?h1[length h := ?outs @ names] ! length h)"
      using True ns by (simp add: plan_outnames_def args_of_def Let_def)
    moreover have "?h1[length h := ?outs @ names] ! outputs_ref = ?outs" "length h \<noteq> outputs_ref"
        "\<forall>r < length h. ?h1[length h := ?outs @ names] ! r = h ! r"
      using assms(1) by (simp_all add: nth_append)
    ultimately show ?thesis by blast
  qed
qed

text \<open>One explicit path, two videos: the generated name is appended to the copy.\<close>

theorem planning_keeps_explicit_outputs_witness:
  "plan_outnames_heap [[''out.h5'']] 0 ''proj.slp'' ''analysis'' proj2 (videos proj2)
     = Inr ([[''out.h5''], [''out.h5'', ''proj.001_camB.analysis.h5'']], 1)
   \<and> plan_outnames (args_of ''proj.slp'' [''out.h5''] ''analysis'' []) proj2 (videos proj2)
     = Inr [''out.h5'', ''proj.001_camB.analysis.h5'']"
proof -
  have r: "plan_outnames_heap [[''out.h5'']] 0 ''proj.slp'' ''analysis'' proj2 (videos proj2)
     = Inr ([[''out.h5''], [''out.h5'', ''proj.001_camB.analysis.h5'']], 1)"
    by code_simp
  have l: "(0::nat) < length [[''out.h5'']]" by simp
  have s: "set (videos proj2) \<subseteq> set (videos proj2)" by simp
  show ?thesis
    using planning_keeps_explicit_outputs [OF l s, of "''proj.slp''" "''analysis''" "[]"] r
    by simp
qed

end
